theory Spec2Isabelle
  imports Main "HOL-Library.Char_ord" "HOL-Library.List_Lexorder"
begin

section \<open>The HRI listener: data model\<close>

text \<open>
  The embedding follows \<^verbatim>\<open>src/src/hri.cpp\<close> and \<^verbatim>\<open>src/include/hri/hri.h\<close>.

  Modelled from the spec: the types \<^verbatim>\<open>ID\<close> and \<^verbatim>\<open>FeatureType\<close> are declared in
  \<^verbatim>\<open>base.h\<close>, which is not among the sources. The spec has an ID string-backed,
  compared by value and totally ordered, so an \<open>ID\<close> is a \<^verbatim>\<open>std::string\<close>: its order
  is the lexicographic order on bytes, which is the order of \<open>char list\<close> given by
  \<open>Char_ord\<close> and \<open>List_Lexorder\<close>, and \<^verbatim>\<open>ID(id)\<close> is the identity. The categories
  are the four that \<^verbatim>\<open>hri.cpp\<close> switches over.
\<close>

type_synonym ID = string

datatype FeatureType = face | body | voice | person

text \<open>
  Objects created by \<^verbatim>\<open>make_shared\<close> live on a heap; a pointer is the index of its
  object. The two smart pointer types of the code are kept apart.
\<close>

type_synonym addr = nat

datatype shared_ptr = SharedPtr addr

datatype weak_ptr = WeakPtr addr

fun weak_of :: "shared_ptr \<Rightarrow> weak_ptr" where
  "weak_of (SharedPtr a) = WeakPtr a"

fun addr_of :: "shared_ptr \<Rightarrow> addr" where
  "addr_of (SharedPtr a) = a"

text \<open>
  A tracked object (Face, Body, Voice or Person): its ID, its category, and the detail
  state that \<^verbatim>\<open>init()\<close> and the later detail streams give it. \<open>detail = None\<close> is an
  object that was constructed and not yet initialised. A heap cell is \<open>None\<close> once its
  object is destroyed, which happens when its last shared pointer goes.
\<close>

record 'd entity =
  ent_id :: ID
  ent_type :: FeatureType
  detail :: "'d option"

type_synonym 'd heap = "'d entity option list"

definition deref :: "'d heap \<Rightarrow> addr \<Rightarrow> 'd entity option" where
  "deref h a = (if a < length h then h ! a else None)"

text \<open>
  What the listener does that an observer of the run can see, in order: the calls of
  \<^verbatim>\<open>erase\<close>, \<^verbatim>\<open>init\<close> and \<^verbatim>\<open>insert\<close>, and the calls of a registered callback.
\<close>

datatype 'c event =
    Erase FeatureType ID
  | Init addr
  | Insert FeatureType ID shared_ptr
  | Notify FeatureType 'c addr

text \<open>
  A \<^verbatim>\<open>std::map<ID, T>\<close> is a list of pairs kept in key order. The maps of a run are
  objects of their own: the four members of the listener, and the maps that the getters
  have returned by value, which their callers hold. A returned map holds shared pointers
  (\<^verbatim>\<open>getPersons\<close>) or weak ones (the other getters).
\<close>

type_synonym 'v std_map = "(ID \<times> 'v) list"

datatype map_val = SharedMap "shared_ptr std_map" | WeakMap "weak_ptr std_map"

datatype map_obj = Member FeatureType | Result nat

text \<open>
  The state of a run: the members of \<^verbatim>\<open>HRIListener\<close> (the ROS node handle and the
  subscribers are the transport and are left out) and, around them, the heap that the
  shared pointers point into, the maps returned to callers so far, and the trace of the
  events so far. A callback is an opaque value of type \<open>'c\<close>.
\<close>

record ('d, 'c) listener =
  heap :: "'d heap"
  faces :: "shared_ptr std_map"
  face_callbacks :: "'c list"
  bodies :: "shared_ptr std_map"
  body_callbacks :: "'c list"
  voices :: "shared_ptr std_map"
  voice_callbacks :: "'c list"
  persons :: "shared_ptr std_map"
  person_callbacks :: "'c list"
  results :: "map_val list"
  trace :: "'c event list"

section \<open>The containers of the standard library\<close>

text \<open>\<^verbatim>\<open>std::set<ID>\<close>: a list in increasing order without duplicates.\<close>

definition set_insert :: "ID \<Rightarrow> ID list \<Rightarrow> ID list" where
  "set_insert x S = (if x \<in> set S then S else insort x S)"

text \<open>\<^verbatim>\<open>std::map::erase(key)\<close>, \<^verbatim>\<open>std::map::insert(pair)\<close>, which leaves an existing
  key alone, and \<^verbatim>\<open>m[key] = value\<close>, which overwrites it.\<close>

definition keys :: "'v std_map \<Rightarrow> ID list" where
  "keys m = map fst m"

definition map_erase :: "ID \<Rightarrow> 'v std_map \<Rightarrow> 'v std_map" where
  "map_erase k m = filter (\<lambda>kv. fst kv \<noteq> k) m"

definition map_insert :: "ID \<Rightarrow> 'v \<Rightarrow> 'v std_map \<Rightarrow> 'v std_map" where
  "map_insert k v m = (if k \<in> set (keys m) then m else insort_key fst (k, v) m)"

definition map_assign :: "ID \<Rightarrow> 'v \<Rightarrow> 'v std_map \<Rightarrow> 'v std_map" where
  "map_assign k v m =
     (if k \<in> set (keys m) then map (\<lambda>kv. if fst kv = k then (k, v) else kv) m
      else insort_key fst (k, v) m)"

definition map_find :: "ID \<Rightarrow> 'v std_map \<Rightarrow> 'v option" where
  "map_find k m = map_of m k"

definition std_map_ok :: "'v std_map \<Rightarrow> bool" where
  "std_map_ok m = (sorted (keys m) \<and> distinct (keys m))"

section \<open>The listener's operations\<close>

text \<open>The member of the listener that each \<^verbatim>\<open>switch (feature)\<close> selects.\<close>

definition tracked :: "FeatureType \<Rightarrow> ('d, 'c) listener \<Rightarrow> shared_ptr std_map" where
  "tracked f s =
     (case f of face \<Rightarrow> faces s | body \<Rightarrow> bodies s | voice \<Rightarrow> voices s
      | person \<Rightarrow> persons s)"

definition tracked_update ::
  "FeatureType \<Rightarrow> (shared_ptr std_map \<Rightarrow> shared_ptr std_map) \<Rightarrow> ('d, 'c) listener
   \<Rightarrow> ('d, 'c) listener" where
  "tracked_update f g s =
     (case f of
        face \<Rightarrow> s\<lparr>faces := g (faces s)\<rparr>
      | body \<Rightarrow> s\<lparr>bodies := g (bodies s)\<rparr>
      | voice \<Rightarrow> s\<lparr>voices := g (voices s)\<rparr>
      | person \<Rightarrow> s\<lparr>persons := g (persons s)\<rparr>)"

definition callbacks :: "FeatureType \<Rightarrow> ('d, 'c) listener \<Rightarrow> 'c list" where
  "callbacks f s =
     (case f of face \<Rightarrow> face_callbacks s | body \<Rightarrow> body_callbacks s
      | voice \<Rightarrow> voice_callbacks s | person \<Rightarrow> person_callbacks s)"

definition emit :: "'c event \<Rightarrow> ('d, 'c) listener \<Rightarrow> ('d, 'c) listener" where
  "emit e s = s\<lparr>trace := trace s @ [e]\<rparr>"

text \<open>
  The use count of an object is the number of shared pointers to it: those in the four
  members and those in the maps that \<^verbatim>\<open>getPersons\<close> has returned. (A caller can own an
  object in no other way here: it copies no pointer out of a map and locks no weak
  pointer.) When a shared pointer is destroyed and the use count of its object has
  become zero, the object is destroyed.
\<close>

fun shared_of :: "map_val \<Rightarrow> shared_ptr list" where
  "shared_of (SharedMap m) = map snd m"
| "shared_of (WeakMap m) = []"

definition owners :: "('d, 'c) listener \<Rightarrow> shared_ptr list" where
  "owners s =
     map snd (faces s) @ map snd (bodies s) @ map snd (voices s) @ map snd (persons s)
     @ concat (map shared_of (results s))"

definition use_count :: "('d, 'c) listener \<Rightarrow> addr \<Rightarrow> nat" where
  "use_count s a = count_list (map addr_of (owners s)) a"

definition drop_owner :: "shared_ptr \<Rightarrow> ('d, 'c) listener \<Rightarrow> ('d, 'c) listener" where
  "drop_owner p s =
     (if use_count s (addr_of p) = 0 then s\<lparr>heap := (heap s)[addr_of p := None]\<rparr> else s)"

text \<open>\<^verbatim>\<open>onFace\<close>, \<^verbatim>\<open>onBody\<close>, \<^verbatim>\<open>onVoice\<close>, \<^verbatim>\<open>onPerson\<close>: \<^verbatim>\<open>push_back\<close> on the list.\<close>

definition onFace :: "'c \<Rightarrow> ('d, 'c) listener \<Rightarrow> ('d, 'c) listener" where
  "onFace cb s = s\<lparr>face_callbacks := face_callbacks s @ [cb]\<rparr>"

definition onBody :: "'c \<Rightarrow> ('d, 'c) listener \<Rightarrow> ('d, 'c) listener" where
  "onBody cb s = s\<lparr>body_callbacks := body_callbacks s @ [cb]\<rparr>"

definition onVoice :: "'c \<Rightarrow> ('d, 'c) listener \<Rightarrow> ('d, 'c) listener" where
  "onVoice cb s = s\<lparr>voice_callbacks := voice_callbacks s @ [cb]\<rparr>"

definition onPerson :: "'c \<Rightarrow> ('d, 'c) listener \<Rightarrow> ('d, 'c) listener" where
  "onPerson cb s = s\<lparr>person_callbacks := person_callbacks s @ [cb]\<rparr>"

text \<open>
  \<^verbatim>\<open>getFaces\<close>, \<^verbatim>\<open>getBodies\<close>, \<^verbatim>\<open>getVoices\<close>: a new map, filled by
  \<^verbatim>\<open>result[f.first] = f.second\<close> for each pair of the member, the assignment turning
  the shared pointer into a weak one. \<^verbatim>\<open>getPersons\<close> returns the member by value.
\<close>

definition weak_copy :: "shared_ptr std_map \<Rightarrow> weak_ptr std_map" where
  "weak_copy m = fold (\<lambda>f result. map_assign (fst f) (weak_of (snd f)) result) m []"

definition getFaces :: "('d, 'c) listener \<Rightarrow> weak_ptr std_map" where
  "getFaces s = weak_copy (faces s)"

definition getBodies :: "('d, 'c) listener \<Rightarrow> weak_ptr std_map" where
  "getBodies s = weak_copy (bodies s)"

definition getVoices :: "('d, 'c) listener \<Rightarrow> weak_ptr std_map" where
  "getVoices s = weak_copy (voices s)"

definition getPersons :: "('d, 'c) listener \<Rightarrow> shared_ptr std_map" where
  "getPersons s = persons s"

text \<open>
  A call of a getter hands its caller a map object: \<^verbatim>\<open>getFaces\<close> and its two siblings
  construct the local \<^verbatim>\<open>result\<close> and return it, \<^verbatim>\<open>getPersons\<close> returns a copy of the
  member (its return type is a map, not a reference). \<open>map_at\<close> reads a map object;
  a result that no getter has returned yet is no object.
\<close>

fun map_at :: "('d, 'c) listener \<Rightarrow> map_obj \<Rightarrow> map_val option" where
  "map_at s (Member f) = Some (SharedMap (tracked f s))"
| "map_at s (Result n) = (if n < length (results s) then Some (results s ! n) else None)"

fun is_result :: "map_obj \<Rightarrow> bool" where
  "is_result (Result n) = True"
| "is_result (Member f) = False"

definition return_map :: "map_val \<Rightarrow> ('d, 'c) listener \<Rightarrow> map_obj \<times> ('d, 'c) listener" where
  "return_map v s = (Result (length (results s)), s\<lparr>results := results s @ [v]\<rparr>)"

definition call_getFaces :: "('d, 'c) listener \<Rightarrow> map_obj \<times> ('d, 'c) listener" where
  "call_getFaces s = return_map (WeakMap (getFaces s)) s"

definition call_getBodies :: "('d, 'c) listener \<Rightarrow> map_obj \<times> ('d, 'c) listener" where
  "call_getBodies s = return_map (WeakMap (getBodies s)) s"

definition call_getVoices :: "('d, 'c) listener \<Rightarrow> map_obj \<times> ('d, 'c) listener" where
  "call_getVoices s = return_map (WeakMap (getVoices s)) s"

definition call_getPersons :: "('d, 'c) listener \<Rightarrow> map_obj \<times> ('d, 'c) listener" where
  "call_getPersons s = return_map (SharedMap (getPersons s)) s"

text \<open>
  A call from the state \<open>s\<close> with the outcome \<open>r\<close> (the object handed to the caller, and
  the state after the call) has returned a new map with the contents \<open>v\<close>: the object is
  a result and no member, it was no object before the call, it holds \<open>v\<close> after it, and
  the call has changed nothing else.
\<close>

definition returns_new_map ::
  "('d, 'c) listener \<Rightarrow> map_obj \<times> ('d, 'c) listener \<Rightarrow> map_val \<Rightarrow> bool" where
  "returns_new_map s r v =
     (is_result (fst r) \<and> map_at s (fst r) = None \<and> map_at (snd r) (fst r) = Some v
      \<and> snd r = s\<lparr>results := results s @ [v]\<rparr>)"

subsection \<open>onTrackedFeature\<close>

text \<open>The four sets computed at the start of \<^verbatim>\<open>onTrackedFeature\<close>.\<close>

definition new_ids_of :: "ID list \<Rightarrow> ID list" where
  "new_ids_of ids = fold (\<lambda>i new_ids. set_insert i new_ids) ids []"

definition current_ids_of :: "FeatureType \<Rightarrow> ('d, 'c) listener \<Rightarrow> ID list" where
  "current_ids_of f s =
     (case f of
        face \<Rightarrow> fold (\<lambda>kv cur. set_insert (fst kv) cur) (faces s) []
      | body \<Rightarrow> fold (\<lambda>kv cur. set_insert (fst kv) cur) (bodies s) []
      | voice \<Rightarrow> fold (\<lambda>kv cur. set_insert (fst kv) cur) (voices s) []
      | person \<Rightarrow> fold (\<lambda>kv cur. set_insert (fst kv) cur) (persons s) [])"

definition to_add_of :: "ID list \<Rightarrow> ID list \<Rightarrow> ID list" where
  "to_add_of new_ids current_ids =
     fold (\<lambda>i to_add. if i \<notin> set current_ids then set_insert i to_add else to_add)
       new_ids []"

definition to_remove_of :: "ID list \<Rightarrow> ID list \<Rightarrow> ID list" where
  "to_remove_of new_ids current_ids =
     fold (\<lambda>i to_remove. if i \<notin> set new_ids then set_insert i to_remove else to_remove)
       current_ids []"

text \<open>
  The first loop over \<open>to_remove\<close>: \<^verbatim>\<open>faces.erase(id)\<close> and its siblings. The source
  has the loop inside each case of the \<^verbatim>\<open>switch\<close>; here the member is selected in each
  iteration, which makes the same calls in the same order. Each call is recorded in the
  trace. \<^verbatim>\<open>erase\<close> destroys the shared pointer that the map held under the ID, and
  with it the object if the map was its last owner.
\<close>

definition erase_feature :: "FeatureType \<Rightarrow> ID \<Rightarrow> ('d, 'c) listener \<Rightarrow> ('d, 'c) listener" where
  "erase_feature f i s =
     (let s1 = tracked_update f (map_erase i) s
      in emit (Erase f i)
           (case map_find i (tracked f s) of None \<Rightarrow> s1 | Some p \<Rightarrow> drop_owner p s1))"

definition erase_all :: "FeatureType \<Rightarrow> ID list \<Rightarrow> ('d, 'c) listener \<Rightarrow> ('d, 'c) listener" where
  "erase_all f to_remove s = fold (erase_feature f) to_remove s"

text \<open>
  The body of the second loop:
  \<^verbatim>\<open>auto face = make_shared<Face>(id, node_); face->init(); faces.insert({ id, face });\<close>

  The bodies of \<^verbatim>\<open>Face::init\<close>, \<^verbatim>\<open>Body::init\<close>, \<^verbatim>\<open>Voice::init\<close> and
  \<^verbatim>\<open>Person::init\<close> are not among the sources, so the operation takes them as the
  parameter \<open>init\<close>: for a category and an ID, the detail state the object has after
  \<^verbatim>\<open>init()\<close>, or \<open>None\<close> when \<^verbatim>\<open>init()\<close> throws. \<^verbatim>\<open>onTrackedFeature\<close> has no handler,
  so the exception leaves it at once; the local shared pointer is the only owner of the
  new object, which is destroyed on the way out (\<open>release\<close>), and the status of the call
  is \<open>InitFault\<close> with the ID whose \<^verbatim>\<open>init()\<close> threw. The listener keeps what the call
  did before the exception.

  When \<^verbatim>\<open>init()\<close> returns, \<^verbatim>\<open>insert\<close> stores a copy of the pointer: the IDs of
  \<open>to_add\<close> are no keys of the map, so the insertion takes place, and the local pointer
  going out of scope at the end of the iteration leaves the map as the owner.

  \<open>call_init\<close> is handed the pointer that \<open>make_shared\<close> has just returned, so its case
  of a pointer to no object never applies there (lemmas \<open>add_all_Cons_None\<close> and
  \<open>add_all_Cons_Some\<close>).
\<close>

type_synonym 'd init_fn = "FeatureType \<Rightarrow> ID \<Rightarrow> 'd option"

definition init_returns :: "'d init_fn \<Rightarrow> FeatureType \<Rightarrow> ID \<Rightarrow> bool" where
  "init_returns init f i = (init f i \<noteq> None)"

datatype status = Completed | InitFault ID

definition make_shared :: "FeatureType \<Rightarrow> ID \<Rightarrow> ('d, 'c) listener \<Rightarrow> shared_ptr \<times> ('d, 'c) listener" where
  "make_shared f i s =
     (SharedPtr (length (heap s)),
      s\<lparr>heap := heap s @ [Some \<lparr>ent_id = i, ent_type = f, detail = None\<rparr>]\<rparr>)"

definition call_init :: "'d init_fn \<Rightarrow> shared_ptr \<Rightarrow> ('d, 'c) listener \<Rightarrow> ('d, 'c) listener option" where
  "call_init init p s =
     (case deref (heap s) (addr_of p) of
        None \<Rightarrow> None
      | Some e \<Rightarrow>
          (case init (ent_type e) (ent_id e) of
             None \<Rightarrow> None
           | Some d \<Rightarrow>
               Some (emit (Init (addr_of p))
                 (s\<lparr>heap := (heap s)[addr_of p := Some (e\<lparr>detail := Some d\<rparr>)]\<rparr>))))"

definition release :: "shared_ptr \<Rightarrow> ('d, 'c) listener \<Rightarrow> ('d, 'c) listener" where
  "release p s = s\<lparr>heap := (heap s)[addr_of p := None]\<rparr>"

definition insert_feature ::
  "FeatureType \<Rightarrow> ID \<Rightarrow> shared_ptr \<Rightarrow> ('d, 'c) listener \<Rightarrow> ('d, 'c) listener" where
  "insert_feature f i p s = emit (Insert f i p) (tracked_update f (map_insert i p) s)"

fun add_all ::
  "'d init_fn \<Rightarrow> FeatureType \<Rightarrow> ID list \<Rightarrow> ('d, 'c) listener \<Rightarrow> status \<times> ('d, 'c) listener" where
  "add_all init f [] s = (Completed, s)"
| "add_all init f (i # to_add) s =
     (case make_shared f i s of
        (p, s1) \<Rightarrow>
          (case call_init init p s1 of
             None \<Rightarrow> (InitFault i, release p s1)
           | Some s2 \<Rightarrow> add_all init f to_add (insert_feature f i p s2)))"

definition onTrackedFeature ::
  "'d init_fn \<Rightarrow> FeatureType \<Rightarrow> ID list \<Rightarrow> ('d, 'c) listener \<Rightarrow> status \<times> ('d, 'c) listener" where
  "onTrackedFeature init f ids s =
     (let new_ids = new_ids_of ids;
          current_ids = current_ids_of f s;
          to_add = to_add_of new_ids current_ids;
          to_remove = to_remove_of new_ids current_ids
      in add_all init f to_add (erase_all f to_remove s))"

text \<open>The listener after its constructor: nothing tracked, no callback.\<close>

definition new_listener :: "('d, 'c) listener" where
  "new_listener =
     \<lparr>heap = [], faces = [], face_callbacks = [], bodies = [], body_callbacks = [],
      voices = [], voice_callbacks = [], persons = [], person_callbacks = [], results = [],
      trace = []\<rparr>"

text \<open>The class invariant of the four \<^verbatim>\<open>std::map\<close> members.\<close>

definition listener_ok :: "('d, 'c) listener \<Rightarrow> bool" where
  "listener_ok s =
     (std_map_ok (faces s) \<and> std_map_ok (bodies s) \<and> std_map_ok (voices s)
      \<and> std_map_ok (persons s))"

text \<open>
  A pointer to an object of category \<open>f\<close> and ID \<open>k\<close> on which \<^verbatim>\<open>init()\<close> has
  returned.
\<close>

definition hydrated :: "'d init_fn \<Rightarrow> FeatureType \<Rightarrow> ID \<Rightarrow> 'd heap \<Rightarrow> shared_ptr \<Rightarrow> bool" where
  "hydrated init f k h p =
     (case deref h (addr_of p) of
        None \<Rightarrow> False
      | Some e \<Rightarrow>
          ent_id e = k \<and> ent_type e = f \<and> detail e \<noteq> None \<and> detail e = init f k)"

text \<open>The events of a call: what it appended to the trace.\<close>

definition events_of :: "('d, 'c) listener \<Rightarrow> ('d, 'c) listener \<Rightarrow> 'c event list" where
  "events_of s s' = drop (length (trace s)) (trace s')"

text \<open>What an event does to the map of the category \<open>f\<close>.\<close>

fun apply_event :: "FeatureType \<Rightarrow> 'c event \<Rightarrow> shared_ptr std_map \<Rightarrow> shared_ptr std_map" where
  "apply_event f (Erase g i) m = (if g = f then map_erase i m else m)"
| "apply_event f (Insert g i p) m = (if g = f then map_insert i p m else m)"
| "apply_event f e m = m"

text \<open>
  The events of the second loop over \<open>to_add\<close>, in a run that started with \<open>n\<close> objects
  on the heap: \<^verbatim>\<open>init()\<close> on an object made in this run, and the insertion of a pointer
  to such an object under an ID of \<open>to_add\<close>.
\<close>

fun is_add_event :: "FeatureType \<Rightarrow> ID list \<Rightarrow> nat \<Rightarrow> 'c event \<Rightarrow> bool" where
  "is_add_event f to_add n (Init a) = (n \<le> a)"
| "is_add_event f to_add n (Insert g i p) = (g = f \<and> i \<in> set to_add \<and> n \<le> addr_of p)"
| "is_add_event f to_add n e = False"

text \<open>
  One iteration of the second loop in which \<^verbatim>\<open>init()\<close> returned, giving the detail
  state \<open>d\<close>: the state after \<^verbatim>\<open>make_shared\<close>, \<^verbatim>\<open>init\<close> and \<^verbatim>\<open>insert\<close>.
\<close>

definition add_one :: "FeatureType \<Rightarrow> ID \<Rightarrow> 'd \<Rightarrow> ('d, 'c) listener \<Rightarrow> ('d, 'c) listener" where
  "add_one f i d s =
     insert_feature f i (SharedPtr (length (heap s)))
       (emit (Init (length (heap s)))
          (s\<lparr>heap := heap s @ [Some \<lparr>ent_id = i, ent_type = f, detail = Some d\<rparr>]\<rparr>))"

text \<open>
  Concrete inputs for the examples: a listener that tracks the face \<open>A\<close>, whose detail
  state has moved on to \<open>5\<close> since its \<^verbatim>\<open>init()\<close>, with one callback registered for
  faces; a second listener that tracks a face \<open>A\<close> too, as another object with another
  detail state; a listener that tracks two faces, two bodies, a voice and two persons,
  while a caller holds the map that \<^verbatim>\<open>getPersons\<close> returned when the persons were \<open>O\<close>
  and \<open>P\<close>; an \<^verbatim>\<open>init()\<close> that always returns; and one that throws for the ID \<open>B\<close>.
\<close>

definition tracking_A :: "(nat, nat) listener" where
  "tracking_A =
     \<lparr>heap = [Some \<lparr>ent_id = ''A'', ent_type = face, detail = Some 5\<rparr>],
      faces = [(''A'', SharedPtr 0)], face_callbacks = [7], bodies = [], body_callbacks = [],
      voices = [], voice_callbacks = [], persons = [], person_callbacks = [], results = [],
      trace = []\<rparr>"

definition tracking_A_again :: "(nat, nat) listener" where
  "tracking_A_again =
     \<lparr>heap = [None, Some \<lparr>ent_id = ''A'', ent_type = face, detail = Some 9\<rparr>],
      faces = [(''A'', SharedPtr 1)], face_callbacks = [], bodies = [(''X'', SharedPtr 0)],
      body_callbacks = [3], voices = [], voice_callbacks = [], persons = [],
      person_callbacks = [], results = [], trace = [Erase face ''Z'']\<rparr>"

definition tracking_many :: "(nat, nat) listener" where
  "tracking_many =
     \<lparr>heap =
        [Some \<lparr>ent_id = ''B'', ent_type = face, detail = Some 1\<rparr>,
         Some \<lparr>ent_id = ''A'', ent_type = face, detail = Some 5\<rparr>,
         Some \<lparr>ent_id = ''X'', ent_type = body, detail = Some 2\<rparr>,
         Some \<lparr>ent_id = ''Y'', ent_type = body, detail = Some 2\<rparr>,
         Some \<lparr>ent_id = ''V'', ent_type = voice, detail = Some 3\<rparr>,
         Some \<lparr>ent_id = ''P'', ent_type = person, detail = Some 4\<rparr>,
         Some \<lparr>ent_id = ''Q'', ent_type = person, detail = Some 4\<rparr>,
         Some \<lparr>ent_id = ''O'', ent_type = person, detail = Some 4\<rparr>],
      faces = [(''A'', SharedPtr 1), (''B'', SharedPtr 0)], face_callbacks = [7],
      bodies = [(''X'', SharedPtr 2), (''Y'', SharedPtr 3)], body_callbacks = [],
      voices = [(''V'', SharedPtr 4)], voice_callbacks = [],
      persons = [(''P'', SharedPtr 5), (''Q'', SharedPtr 6)], person_callbacks = [8, 9],
      results = [SharedMap [(''O'', SharedPtr 7), (''P'', SharedPtr 5)]],
      trace = []\<rparr>"

definition init_fine :: "nat init_fn" where
  "init_fine f i = Some 0"

definition init_faulty :: "nat init_fn" where
  "init_faulty f i = (if i = ''B'' then None else Some 0)"

text \<open>The notifications in a trace.\<close>

fun is_notify :: "'c event \<Rightarrow> bool" where
  "is_notify (Notify f cb a) = True"
| "is_notify e = False"

definition notifications :: "'c event list \<Rightarrow> 'c event list" where
  "notifications es = filter is_notify es"

section \<open>Properties of the containers and of the two loops\<close>

subsection \<open>std::set\<close>

lemma set_set_insert: "set (set_insert x S) = insert x (set S)"
  by (auto simp: set_insert_def set_insort_key)

lemma sorted_set_insert: "sorted S \<Longrightarrow> sorted (set_insert x S)"
  by (simp add: set_insert_def sorted_insort)

lemma distinct_set_insert: "distinct S \<Longrightarrow> distinct (set_insert x S)"
  by (simp add: set_insert_def distinct_insort)

lemma set_fold_insert:
  "set (fold (\<lambda>x acc. if P x then set_insert (g x) acc else acc) xs S)
     = set S \<union> g ` {x \<in> set xs. P x}"
  by (induction xs arbitrary: S) (auto simp: set_set_insert)

lemma sorted_fold_insert:
  "sorted S \<Longrightarrow> sorted (fold (\<lambda>x acc. if P x then set_insert (g x) acc else acc) xs S)"
  by (induction xs arbitrary: S) (auto simp: sorted_set_insert)

lemma distinct_fold_insert:
  "distinct S \<Longrightarrow> distinct (fold (\<lambda>x acc. if P x then set_insert (g x) acc else acc) xs S)"
  by (induction xs arbitrary: S) (auto simp: distinct_set_insert)

lemma set_new_ids_of: "set (new_ids_of ids) = set ids"
  using set_fold_insert [of "\<lambda>_. True" "\<lambda>x. x" ids "[]"] by (simp add: new_ids_of_def)

lemma sorted_new_ids_of: "sorted (new_ids_of ids)"
  using sorted_fold_insert [of "[]" "\<lambda>_. True" "\<lambda>x. x" ids] by (simp add: new_ids_of_def)

lemma distinct_new_ids_of: "distinct (new_ids_of ids)"
  using distinct_fold_insert [of "[]" "\<lambda>_. True" "\<lambda>x. x" ids] by (simp add: new_ids_of_def)

lemma current_ids_of_tracked:
  "current_ids_of f s = fold (\<lambda>kv cur. set_insert (fst kv) cur) (tracked f s) []"
  by (cases f) (simp_all add: current_ids_of_def tracked_def)

lemma set_current_ids_of: "set (current_ids_of f s) = set (keys (tracked f s))"
  using set_fold_insert [of "\<lambda>_. True" fst "tracked f s" "[]"]
  by (simp add: current_ids_of_tracked keys_def)

lemma sorted_current_ids_of: "sorted (current_ids_of f s)"
  using sorted_fold_insert [of "[]" "\<lambda>_. True" fst "tracked f s"]
  by (simp add: current_ids_of_tracked)

lemma distinct_current_ids_of: "distinct (current_ids_of f s)"
  using distinct_fold_insert [of "[]" "\<lambda>_. True" fst "tracked f s"]
  by (simp add: current_ids_of_tracked)

lemma set_to_add_of: "set (to_add_of n c) = set n - set c"
  using set_fold_insert [of "\<lambda>i. i \<notin> set c" "\<lambda>x. x" n "[]"]
  by (auto simp: to_add_of_def)

lemma sorted_to_add_of: "sorted (to_add_of n c)"
  using sorted_fold_insert [of "[]" "\<lambda>i. i \<notin> set c" "\<lambda>x. x" n]
  by (simp add: to_add_of_def)

lemma distinct_to_add_of: "distinct (to_add_of n c)"
  using distinct_fold_insert [of "[]" "\<lambda>i. i \<notin> set c" "\<lambda>x. x" n]
  by (simp add: to_add_of_def)

lemma set_to_remove_of: "set (to_remove_of n c) = set c - set n"
  using set_fold_insert [of "\<lambda>i. i \<notin> set n" "\<lambda>x. x" c "[]"]
  by (auto simp: to_remove_of_def)

lemma sorted_to_remove_of: "sorted (to_remove_of n c)"
  using sorted_fold_insert [of "[]" "\<lambda>i. i \<notin> set n" "\<lambda>x. x" c]
  by (simp add: to_remove_of_def)

lemma distinct_to_remove_of: "distinct (to_remove_of n c)"
  using distinct_fold_insert [of "[]" "\<lambda>i. i \<notin> set n" "\<lambda>x. x" c]
  by (simp add: to_remove_of_def)

lemma std_set_unique:
  "sorted (xs :: ID list) \<Longrightarrow> distinct xs \<Longrightarrow> sorted ys \<Longrightarrow> distinct ys \<Longrightarrow> set xs = set ys \<Longrightarrow> xs = ys"
  by (rule sorted_distinct_set_unique)

lemma new_ids_of_cong: "set ids1 = set ids2 \<Longrightarrow> new_ids_of ids1 = new_ids_of ids2"
  by (rule std_set_unique) (simp_all add: sorted_new_ids_of distinct_new_ids_of set_new_ids_of)

lemma current_ids_of_cong:
  "set (keys (tracked f s1)) = set (keys (tracked f s2)) \<Longrightarrow> current_ids_of f s1 = current_ids_of f s2"
  by (rule std_set_unique)
    (simp_all add: sorted_current_ids_of distinct_current_ids_of set_current_ids_of)

subsection \<open>std::map\<close>

lemma keys_map_erase: "keys (map_erase k m) = filter (\<lambda>x. x \<noteq> k) (keys m)"
  by (simp add: keys_def map_erase_def filter_map comp_def)

lemma set_keys_map_insert: "set (keys (map_insert k v m)) = insert k (set (keys m))"
  by (auto simp: map_insert_def keys_def set_insort_key)

lemma std_map_ok_erase: "std_map_ok m \<Longrightarrow> std_map_ok (map_erase k m)"
  by (simp add: std_map_ok_def keys_map_erase sorted_wrt_filter)

lemma keys_insort_key: "keys (insort_key fst kv m) = insort (fst kv) (keys m)"
  by (induction m) (auto simp: keys_def)

lemma std_map_ok_insert: "std_map_ok m \<Longrightarrow> std_map_ok (map_insert k v m)"
  unfolding std_map_ok_def map_insert_def
  by (simp add: keys_insort_key sorted_insort distinct_insort)

lemma map_find_erase:
  "map_find x (map_erase k m) = (if x = k then None else map_find x m)"
  by (induction m) (auto simp: map_find_def map_erase_def)

lemma map_find_insort:
  "k \<notin> set (keys m) \<Longrightarrow> map_find x (insort_key fst (k, v) m) = (if x = k then Some v else map_find x m)"
  by (induction m) (auto simp: map_find_def keys_def)

lemma map_find_insert:
  "map_find x (map_insert k v m) =
     (if x = k \<and> k \<notin> set (keys m) then Some v else map_find x m)"
  by (simp add: map_insert_def map_find_insort)

lemma map_find_None: "map_find x m = None \<longleftrightarrow> x \<notin> set (keys m)"
  by (simp add: map_find_def keys_def map_of_eq_None_iff)

subsection \<open>The member selected by a category\<close>

lemma tracked_update_same [simp]: "tracked f (tracked_update f g s) = g (tracked f s)"
  by (cases f) (simp_all add: tracked_def tracked_update_def)

lemma tracked_update_other [simp]: "f' \<noteq> f \<Longrightarrow> tracked f' (tracked_update f g s) = tracked f' s"
  by (cases f; cases f') (simp_all add: tracked_def tracked_update_def)

lemma callbacks_tracked_update [simp]: "callbacks f' (tracked_update f g s) = callbacks f' s"
  by (cases f; cases f') (simp_all add: callbacks_def tracked_update_def)

lemma heap_tracked_update [simp]: "heap (tracked_update f g s) = heap s"
  by (cases f) (simp_all add: tracked_update_def)

lemma trace_tracked_update [simp]: "trace (tracked_update f g s) = trace s"
  by (cases f) (simp_all add: tracked_update_def)

lemma tracked_emit [simp]: "tracked f (emit e s) = tracked f s"
  by (cases f) (simp_all add: tracked_def emit_def)

lemma callbacks_emit [simp]: "callbacks f (emit e s) = callbacks f s"
  by (cases f) (simp_all add: callbacks_def emit_def)

lemma heap_emit [simp]: "heap (emit e s) = heap s"
  by (simp add: emit_def)

lemma trace_emit [simp]: "trace (emit e s) = trace s @ [e]"
  by (simp add: emit_def)

lemma tracked_heap_update [simp]: "tracked f (s\<lparr>heap := h\<rparr>) = tracked f s"
  by (cases f) (simp_all add: tracked_def)

lemma callbacks_heap_update [simp]: "callbacks f (s\<lparr>heap := h\<rparr>) = callbacks f s"
  by (cases f) (simp_all add: callbacks_def)

lemma results_tracked_update [simp]: "results (tracked_update f g s) = results s"
  by (cases f) (simp_all add: tracked_update_def)

lemma results_emit [simp]: "results (emit e s) = results s"
  by (simp add: emit_def)

lemma tracked_drop_owner [simp]: "tracked f (drop_owner p s) = tracked f s"
  by (simp add: drop_owner_def)

lemma callbacks_drop_owner [simp]: "callbacks f (drop_owner p s) = callbacks f s"
  by (simp add: drop_owner_def)

lemma trace_drop_owner [simp]: "trace (drop_owner p s) = trace s"
  by (simp add: drop_owner_def)

lemma results_drop_owner [simp]: "results (drop_owner p s) = results s"
  by (simp add: drop_owner_def)

lemma length_heap_drop_owner [simp]: "length (heap (drop_owner p s)) = length (heap s)"
  by (simp add: drop_owner_def)

lemma owners_tracked: "(k, p) \<in> set (tracked f s) \<Longrightarrow> p \<in> set (owners s)"
  by (cases f) (force simp: tracked_def owners_def)+

lemma use_count_owner: "p \<in> set (owners s) \<Longrightarrow> use_count s (addr_of p) \<noteq> 0"
  by (simp add: use_count_def count_list_0_iff)

lemma deref_drop_owner:
  "q \<in> set (owners s) \<Longrightarrow> deref (heap (drop_owner p s)) (addr_of q) = deref (heap s) (addr_of q)"
proof (cases "addr_of p = addr_of q")
  case True
  assume "q \<in> set (owners s)"
  then have "use_count s (addr_of p) \<noteq> 0"
    using True use_count_owner [of q s] by simp
  then show ?thesis by (simp add: drop_owner_def)
next
  case False
  then show ?thesis by (simp add: drop_owner_def deref_def)
qed

subsection \<open>The loop over to_remove\<close>

lemma erase_all_Nil: "erase_all f [] s = s"
  by (simp add: erase_all_def)

lemma erase_all_Cons: "erase_all f (r # R) s = erase_all f R (erase_feature f r s)"
  by (simp add: erase_all_def)

lemma tracked_erase_feature: "tracked f (erase_feature f r s) = map_erase r (tracked f s)"
  by (simp add: erase_feature_def Let_def split: option.splits)

lemma tracked_erase_feature_other:
  "f' \<noteq> f \<Longrightarrow> tracked f' (erase_feature f r s) = tracked f' s"
  by (simp add: erase_feature_def Let_def split: option.splits)

lemma callbacks_erase_feature: "callbacks f' (erase_feature f r s) = callbacks f' s"
  by (simp add: erase_feature_def Let_def split: option.splits)

lemma trace_erase_feature: "trace (erase_feature f r s) = trace s @ [Erase f r]"
  by (simp add: erase_feature_def Let_def split: option.splits)

lemma results_erase_feature: "results (erase_feature f r s) = results s"
  by (simp add: erase_feature_def Let_def split: option.splits)

lemma length_heap_erase_feature: "length (heap (erase_feature f r s)) = length (heap s)"
  by (simp add: erase_feature_def Let_def split: option.splits)

text \<open>An object that the map still points to under another ID outlives the erasure.\<close>

lemma deref_erase_feature:
  assumes "(x, p) \<in> set (tracked f s)" and "x \<noteq> r"
  shows "deref (heap (erase_feature f r s)) (addr_of p) = deref (heap s) (addr_of p)"
proof -
  let ?s1 = "tracked_update f (map_erase r) s"
  have "(x, p) \<in> set (tracked f ?s1)"
    using assms by (simp add: map_erase_def)
  then have own: "p \<in> set (owners ?s1)"
    by (rule owners_tracked)
  show ?thesis
    using deref_drop_owner [OF own] by (simp add: erase_feature_def Let_def split: option.splits)
qed

lemma tracked_erase_all:
  "tracked f (erase_all f R s) = filter (\<lambda>kv. fst kv \<notin> set R) (tracked f s)"
proof (induction R arbitrary: s)
  case Nil
  show ?case by (simp add: erase_all_Nil)
next
  case (Cons r R)
  show ?case
    by (simp add: Cons.IH erase_all_Cons tracked_erase_feature map_erase_def conj_commute)
qed

lemma tracked_erase_all_other: "f' \<noteq> f \<Longrightarrow> tracked f' (erase_all f R s) = tracked f' s"
  by (induction R arbitrary: s)
    (simp_all add: erase_all_Nil erase_all_Cons tracked_erase_feature_other)

lemma callbacks_erase_all: "callbacks f' (erase_all f R s) = callbacks f' s"
  by (induction R arbitrary: s) (simp_all add: erase_all_Nil erase_all_Cons callbacks_erase_feature)

lemma length_heap_erase_all: "length (heap (erase_all f R s)) = length (heap s)"
  by (induction R arbitrary: s)
    (simp_all add: erase_all_Nil erase_all_Cons length_heap_erase_feature)

lemma trace_erase_all: "trace (erase_all f R s) = trace s @ map (Erase f) R"
  by (induction R arbitrary: s) (simp_all add: erase_all_Nil erase_all_Cons trace_erase_feature)

lemma results_erase_all: "results (erase_all f R s) = results s"
  by (induction R arbitrary: s) (simp_all add: erase_all_Nil erase_all_Cons results_erase_feature)

lemma deref_erase_all:
  "(x, p) \<in> set (tracked f s) \<Longrightarrow> x \<notin> set R \<Longrightarrow>
     deref (heap (erase_all f R s)) (addr_of p) = deref (heap s) (addr_of p)"
proof (induction R arbitrary: s)
  case Nil
  show ?case by (simp add: erase_all_Nil)
next
  case (Cons r R)
  have ne: "x \<noteq> r" and nin: "x \<notin> set R"
    using Cons.prems(2) by auto
  have "(x, p) \<in> set (tracked f (erase_feature f r s))"
    using Cons.prems(1) ne by (simp add: tracked_erase_feature map_erase_def)
  then have "deref (heap (erase_all f R (erase_feature f r s))) (addr_of p)
      = deref (heap (erase_feature f r s)) (addr_of p)"
    using nin by (rule Cons.IH)
  then show ?case
    using deref_erase_feature [OF Cons.prems(1) ne] by (simp add: erase_all_Cons)
qed

text \<open>The map after the first loop is the map after the erasures, applied in order.\<close>

lemma tracked_erase_all_replay:
  fixes s :: "('d, 'c) listener"
  shows "tracked f (erase_all f R s)
    = fold (apply_event f) (map (Erase f) R :: 'c event list) (tracked f s)"
  by (induction R arbitrary: s) (simp_all add: erase_all_Nil erase_all_Cons tracked_erase_feature)

lemma keys_erase_all: "set (keys (tracked f (erase_all f R s))) = set (keys (tracked f s)) - set R"
  by (auto simp: tracked_erase_all keys_def)

lemma map_of_filter_keys:
  "map_of (filter (\<lambda>kv. P (fst kv)) m) x = (if P x then map_of m x else None)"
  by (induction m) auto

lemma map_find_erase_all:
  "map_find x (tracked f (erase_all f R s)) = (if x \<in> set R then None else map_find x (tracked f s))"
  unfolding tracked_erase_all map_find_def
  using map_of_filter_keys [of "\<lambda>k. k \<notin> set R" "tracked f s" x] by simp

lemma std_map_ok_filter: "std_map_ok m \<Longrightarrow> std_map_ok (filter P m)"
  unfolding std_map_ok_def keys_def
  by (induction m) auto

subsection \<open>The loop over to_add\<close>

lemma add_all_Cons_None:
  "init f i = None \<Longrightarrow> add_all init f (i # A) s = (InitFault i, s\<lparr>heap := heap s @ [None]\<rparr>)"
  by (simp add: make_shared_def call_init_def deref_def release_def)

lemma add_all_Cons_Some:
  "init f i = Some d \<Longrightarrow> add_all init f (i # A) s = add_all init f A (add_one f i d s)"
  by (simp add: make_shared_def call_init_def deref_def add_one_def)

declare add_all.simps(2) [simp del]

lemma tracked_add_one: "tracked f (add_one f i d s) = map_insert i (SharedPtr (length (heap s))) (tracked f s)"
  by (simp add: add_one_def insert_feature_def)

lemma tracked_add_one_other: "f' \<noteq> f \<Longrightarrow> tracked f' (add_one f i d s) = tracked f' s"
  by (simp add: add_one_def insert_feature_def)

lemma callbacks_add_one: "callbacks f' (add_one f i d s) = callbacks f' s"
  by (simp add: add_one_def insert_feature_def)

lemma heap_add_one:
  "heap (add_one f i d s) = heap s @ [Some \<lparr>ent_id = i, ent_type = f, detail = Some d\<rparr>]"
  by (simp add: add_one_def insert_feature_def)

lemma trace_add_one:
  "trace (add_one f i d s) =
     trace s @ [Init (length (heap s)), Insert f i (SharedPtr (length (heap s)))]"
  by (simp add: add_one_def insert_feature_def)

lemma add_all_status:
  "fst (add_all init f A s) =
     (case dropWhile (init_returns init f) A of [] \<Rightarrow> Completed | i # _ \<Rightarrow> InitFault i)"
proof (induction A arbitrary: s)
  case Nil
  show ?case by simp
next
  case (Cons i A)
  show ?case
  proof (cases "init f i")
    case None
    then show ?thesis by (simp add: add_all_Cons_None init_returns_def)
  next
    case (Some d)
    then show ?thesis by (simp add: add_all_Cons_Some Cons.IH init_returns_def)
  qed
qed

lemma add_all_keys:
  "set (keys (tracked f (snd (add_all init f A s)))) =
     set (keys (tracked f s)) \<union> set (takeWhile (init_returns init f) A)"
proof (induction A arbitrary: s)
  case Nil
  show ?case by simp
next
  case (Cons i A)
  show ?case
  proof (cases "init f i")
    case None
    then show ?thesis by (simp add: add_all_Cons_None init_returns_def)
  next
    case (Some d)
    then show ?thesis
      by (simp add: add_all_Cons_Some Cons.IH tracked_add_one set_keys_map_insert init_returns_def)
  qed
qed

lemma add_all_other:
  "f' \<noteq> f \<Longrightarrow> tracked f' (snd (add_all init f A s)) = tracked f' s"
proof (induction A arbitrary: s)
  case Nil
  show ?case by simp
next
  case (Cons i A)
  then show ?case
    by (cases "init f i") (simp_all add: add_all_Cons_None add_all_Cons_Some tracked_add_one_other)
qed

lemma add_all_callbacks:
  "callbacks f' (snd (add_all init f A s)) = callbacks f' s"
proof (induction A arbitrary: s)
  case Nil
  show ?case by simp
next
  case (Cons i A)
  then show ?case
    by (cases "init f i") (simp_all add: add_all_Cons_None add_all_Cons_Some callbacks_add_one)
qed

lemma add_all_heap:
  "a < length (heap s) \<Longrightarrow> deref (heap (snd (add_all init f A s))) a = deref (heap s) a"
proof (induction A arbitrary: s)
  case Nil
  show ?case by simp
next
  case (Cons i A)
  show ?case
  proof (cases "init f i")
    case None
    with Cons.prems show ?thesis
      by (simp add: add_all_Cons_None deref_def nth_append)
  next
    case (Some d)
    have "deref (heap (snd (add_all init f A (add_one f i d s)))) a = deref (heap (add_one f i d s)) a"
      using Cons.prems by (intro Cons.IH) (simp add: heap_add_one)
    with Some Cons.prems show ?thesis
      by (simp add: add_all_Cons_Some heap_add_one deref_def nth_append)
  qed
qed

lemma add_all_find_old:
  "x \<in> set (keys (tracked f s)) \<Longrightarrow>
     map_find x (tracked f (snd (add_all init f A s))) = map_find x (tracked f s)"
proof (induction A arbitrary: s)
  case Nil
  show ?case by simp
next
  case (Cons i A)
  show ?case
  proof (cases "init f i")
    case None
    then show ?thesis by (simp add: add_all_Cons_None init_returns_def)
  next
    case (Some d)
    have "x \<in> set (keys (tracked f (add_one f i d s)))"
      using Cons.prems by (simp add: tracked_add_one set_keys_map_insert)
    then have "map_find x (tracked f (snd (add_all init f A (add_one f i d s))))
        = map_find x (tracked f (add_one f i d s))"
      by (rule Cons.IH)
    also have "\<dots> = map_find x (tracked f s)"
      using Cons.prems by (auto simp: tracked_add_one map_find_insert)
    finally show ?thesis using Some by (simp add: add_all_Cons_Some)
  qed
qed

lemma is_add_event_mono:
  "is_add_event f A m e \<Longrightarrow> n \<le> m \<Longrightarrow> set A \<subseteq> set B \<Longrightarrow> is_add_event f B n e"
  by (cases e) auto

lemma add_all_trace:
  "\<exists>es. trace (snd (add_all init f A s)) = trace s @ es
     \<and> list_all (is_add_event f A (length (heap s))) es
     \<and> tracked f (snd (add_all init f A s)) = fold (apply_event f) es (tracked f s)"
proof (induction A arbitrary: s)
  case Nil
  show ?case by simp
next
  case (Cons i A)
  show ?case
  proof (cases "init f i")
    case None
    then show ?thesis by (simp add: add_all_Cons_None)
  next
    case (Some d)
    obtain es where es: "trace (snd (add_all init f A (add_one f i d s))) = trace (add_one f i d s) @ es"
      "list_all (is_add_event f A (length (heap (add_one f i d s)))) es"
      "tracked f (snd (add_all init f A (add_one f i d s)))
         = fold (apply_event f) es (tracked f (add_one f i d s))"
      using Cons.IH [of "add_one f i d s"] by blast
    let ?es = "[Init (length (heap s)), Insert f i (SharedPtr (length (heap s)))] @ es"
    have 1: "trace (snd (add_all init f (i # A) s)) = trace s @ ?es"
      using Some es(1) by (simp add: add_all_Cons_Some trace_add_one)
    have "list_all (is_add_event f (i # A) (length (heap s))) es"
      using es(2) by (auto simp: list_all_iff heap_add_one intro: is_add_event_mono)
    then have 2: "list_all (is_add_event f (i # A) (length (heap s))) ?es"
      by simp
    have 3: "tracked f (snd (add_all init f (i # A) s)) = fold (apply_event f) ?es (tracked f s)"
      using Some es(3) by (simp add: add_all_Cons_Some tracked_add_one)
    from 1 2 3 show ?thesis by blast
  qed
qed

lemma add_all_results: "results (snd (add_all init f A s)) = results s"
proof (induction A arbitrary: s)
  case Nil
  show ?case by simp
next
  case (Cons i A)
  then show ?case
    by (cases "init f i")
      (simp_all add: add_all_Cons_None add_all_Cons_Some add_one_def insert_feature_def)
qed

lemma add_all_hydrated:
  "map_find k (tracked f (snd (add_all init f A s))) = Some p \<Longrightarrow>
     map_find k (tracked f s) = Some p \<or> hydrated init f k (heap (snd (add_all init f A s))) p"
proof (induction A arbitrary: s)
  case Nil
  then show ?case by simp
next
  case (Cons i A)
  show ?case
  proof (cases "init f i")
    case None
    with Cons.prems show ?thesis by (simp add: add_all_Cons_None)
  next
    case (Some d)
    let ?s1 = "add_one f i d s"
    let ?s' = "snd (add_all init f A ?s1)"
    have eq: "add_all init f (i # A) s = add_all init f A ?s1"
      using Some by (simp add: add_all_Cons_Some)
    from Cons.prems have "map_find k (tracked f ?s') = Some p" by (simp add: eq)
    then consider "map_find k (tracked f ?s1) = Some p" | "hydrated init f k (heap ?s') p"
      using Cons.IH [of ?s1] by blast
    then show ?thesis
    proof cases
      case 1
      show ?thesis
      proof (cases "map_find k (tracked f s) = Some p")
        case True
        then show ?thesis by simp
      next
        case False
        with 1 have new: "k = i" "p = SharedPtr (length (heap s))"
          by (auto simp: tracked_add_one map_find_insert split: if_splits)
        have "deref (heap ?s') (length (heap s)) = deref (heap ?s1) (length (heap s))"
          by (rule add_all_heap) (simp add: heap_add_one)
        then have "hydrated init f k (heap ?s') p"
          using new Some by (simp add: hydrated_def heap_add_one deref_def)
        then show ?thesis by (simp add: eq)
      qed
    next
      case 2
      then show ?thesis by (simp add: eq)
    qed
  qed
qed

lemma tracked_cases:
  "listener_ok s \<longleftrightarrow> (\<forall>f. std_map_ok (tracked f s))"
proof
  assume "listener_ok s"
  then show "\<forall>f. std_map_ok (tracked f s)"
    by (auto simp: listener_ok_def tracked_def split: FeatureType.splits)
next
  assume a: "\<forall>f. std_map_ok (tracked f s)"
  have "std_map_ok (tracked face s)" "std_map_ok (tracked body s)"
    "std_map_ok (tracked voice s)" "std_map_ok (tracked person s)"
    using a by blast+
  then show "listener_ok s" by (simp add: listener_ok_def tracked_def)
qed

lemma add_all_ok:
  "std_map_ok (tracked f s) \<Longrightarrow> std_map_ok (tracked f (snd (add_all init f A s)))"
proof (induction A arbitrary: s)
  case Nil
  then show ?case by simp
next
  case (Cons i A)
  then show ?case
    by (cases "init f i")
      (simp_all add: add_all_Cons_None add_all_Cons_Some tracked_add_one std_map_ok_insert)
qed

subsection \<open>onTrackedFeature: the two loops together\<close>

lemma add_all_Completed_iff:
  "fst (add_all init f A s) = Completed \<longleftrightarrow> (\<forall>i\<in>set A. init_returns init f i)"
proof (cases "dropWhile (init_returns init f) A")
  case Nil
  then have "\<forall>i\<in>set A. init_returns init f i"
    by simp
  moreover have "fst (add_all init f A s) = Completed"
    unfolding add_all_status Nil by simp
  ultimately show ?thesis by simp
next
  case (Cons j rest)
  have "dropWhile (init_returns init f) A \<noteq> []"
    unfolding Cons by simp
  then have "\<not> (\<forall>i\<in>set A. init_returns init f i)"
    by simp
  moreover have "fst (add_all init f A s) \<noteq> Completed"
    unfolding add_all_status Cons by simp
  ultimately show ?thesis by simp
qed

lemma add_all_InitFault:
  assumes "fst (add_all init f A s) = InitFault i"
  shows "init f i = None \<and> i \<in> set A \<and> i \<notin> set (takeWhile (init_returns init f) A)"
proof -
  obtain rest where dw: "dropWhile (init_returns init f) A = i # rest"
    using assms by (auto simp: add_all_status split: list.splits)
  have "\<not> init_returns init f (hd (dropWhile (init_returns init f) A))"
    by (rule hd_dropWhile) (simp add: dw)
  then have none: "init f i = None" by (simp add: dw init_returns_def)
  have "i \<in> set (dropWhile (init_returns init f) A)" by (simp add: dw)
  then have mem: "i \<in> set A" by (rule set_dropWhileD)
  have "i \<notin> set (takeWhile (init_returns init f) A)"
    using none by (auto dest: set_takeWhileD simp: init_returns_def)
  with none mem show ?thesis by simp
qed

lemma onTrackedFeature_status:
  "fst (onTrackedFeature init f ids s) = Completed \<longleftrightarrow>
     (\<forall>i\<in>set (to_add_of (new_ids_of ids) (current_ids_of f s)). init_returns init f i)"
  by (simp add: onTrackedFeature_def Let_def add_all_Completed_iff)

lemma onTrackedFeature_keys:
  "set (keys (tracked f (snd (onTrackedFeature init f ids s)))) =
     (set (keys (tracked f s)) \<inter> set ids)
     \<union> set (takeWhile (init_returns init f) (to_add_of (new_ids_of ids) (current_ids_of f s)))"
  by (auto simp: onTrackedFeature_def Let_def add_all_keys keys_erase_all set_to_remove_of
      set_new_ids_of set_current_ids_of)

lemma onTrackedFeature_keys_Completed:
  assumes "fst (onTrackedFeature init f ids s) = Completed"
  shows "set (keys (tracked f (snd (onTrackedFeature init f ids s)))) = set ids"
proof -
  let ?A = "to_add_of (new_ids_of ids) (current_ids_of f s)"
  have "\<forall>i\<in>set ?A. init_returns init f i"
    using assms by (simp add: onTrackedFeature_status)
  then have tw: "takeWhile (init_returns init f) ?A = ?A"
    by simp
  show ?thesis
    unfolding onTrackedFeature_keys tw
    by (auto simp: set_to_add_of set_new_ids_of set_current_ids_of)
qed

lemma onTrackedFeature_other:
  "g \<noteq> f \<Longrightarrow> tracked g (snd (onTrackedFeature init f ids s)) = tracked g s"
  by (simp add: onTrackedFeature_def Let_def add_all_other tracked_erase_all_other)

lemma onTrackedFeature_callbacks:
  "callbacks g (snd (onTrackedFeature init f ids s)) = callbacks g s"
  by (simp add: onTrackedFeature_def Let_def add_all_callbacks callbacks_erase_all)

lemma onTrackedFeature_deref_kept:
  assumes "(x, p) \<in> set (tracked f s)" and "x \<in> set ids" and "addr_of p < length (heap s)"
  shows "deref (heap (snd (onTrackedFeature init f ids s))) (addr_of p) = deref (heap s) (addr_of p)"
proof -
  let ?R = "to_remove_of (new_ids_of ids) (current_ids_of f s)"
  let ?A = "to_add_of (new_ids_of ids) (current_ids_of f s)"
  have nr: "x \<notin> set ?R"
    using assms(2) by (simp add: set_to_remove_of set_new_ids_of)
  have "addr_of p < length (heap (erase_all f ?R s))"
    using assms(3) by (simp add: length_heap_erase_all)
  then have "deref (heap (snd (add_all init f ?A (erase_all f ?R s)))) (addr_of p)
      = deref (heap (erase_all f ?R s)) (addr_of p)"
    by (rule add_all_heap)
  also have "\<dots> = deref (heap s) (addr_of p)"
    using assms(1) nr by (rule deref_erase_all)
  finally show ?thesis
    by (simp add: onTrackedFeature_def Let_def)
qed

lemma onTrackedFeature_results: "results (snd (onTrackedFeature init f ids s)) = results s"
  by (simp add: onTrackedFeature_def Let_def add_all_results results_erase_all)

lemma onTrackedFeature_find_kept:
  assumes "x \<in> set (keys (tracked f s))" "x \<in> set ids"
  shows "map_find x (tracked f (snd (onTrackedFeature init f ids s))) = map_find x (tracked f s)"
proof -
  let ?R = "to_remove_of (new_ids_of ids) (current_ids_of f s)"
  have nr: "x \<notin> set ?R"
    using assms by (simp add: set_to_remove_of set_new_ids_of)
  then have "x \<in> set (keys (tracked f (erase_all f ?R s)))"
    using assms by (simp add: keys_erase_all)
  then have "map_find x (tracked f (snd (add_all init f
        (to_add_of (new_ids_of ids) (current_ids_of f s)) (erase_all f ?R s))))
      = map_find x (tracked f (erase_all f ?R s))"
    by (rule add_all_find_old)
  then show ?thesis
    using nr by (simp add: onTrackedFeature_def Let_def map_find_erase_all)
qed

lemma onTrackedFeature_trace:
  "\<exists>es. trace (snd (onTrackedFeature init f ids s)) =
          trace s @ map (Erase f) (to_remove_of (new_ids_of ids) (current_ids_of f s)) @ es
     \<and> list_all (is_add_event f (to_add_of (new_ids_of ids) (current_ids_of f s)) (length (heap s))) es
     \<and> tracked f (snd (onTrackedFeature init f ids s)) =
          fold (apply_event f)
            (map (Erase f) (to_remove_of (new_ids_of ids) (current_ids_of f s)) @ es) (tracked f s)"
proof -
  let ?R = "to_remove_of (new_ids_of ids) (current_ids_of f s)"
  let ?A = "to_add_of (new_ids_of ids) (current_ids_of f s)"
  have eq: "onTrackedFeature init f ids s = add_all init f ?A (erase_all f ?R s)"
    by (simp add: onTrackedFeature_def Let_def)
  obtain es where es: "trace (snd (add_all init f ?A (erase_all f ?R s))) = trace (erase_all f ?R s) @ es"
    "list_all (is_add_event f ?A (length (heap (erase_all f ?R s)))) es"
    "tracked f (snd (add_all init f ?A (erase_all f ?R s)))
       = fold (apply_event f) es (tracked f (erase_all f ?R s))"
    using add_all_trace [of init f ?A "erase_all f ?R s"] by blast
  have 1: "trace (snd (onTrackedFeature init f ids s)) = trace s @ map (Erase f) ?R @ es"
    unfolding eq es(1) by (simp add: trace_erase_all)
  have 2: "list_all (is_add_event f ?A (length (heap s))) es"
    using es(2) by (simp add: length_heap_erase_all)
  have 3: "tracked f (snd (onTrackedFeature init f ids s))
      = fold (apply_event f) (map (Erase f) ?R @ es) (tracked f s)"
    unfolding eq es(3) tracked_erase_all_replay by simp
  from 1 2 3 show ?thesis by blast
qed

text \<open>The map of the category changes as the events of the call say, in their order.\<close>

lemma onTrackedFeature_replay:
  "tracked f (snd (onTrackedFeature init f ids s)) =
     fold (apply_event f) (events_of s (snd (onTrackedFeature init f ids s))) (tracked f s)"
  using onTrackedFeature_trace [of init f ids s] by (auto simp: events_of_def)

lemma onTrackedFeature_events:
  "\<exists>es. events_of s (snd (onTrackedFeature init f ids s)) =
          map (Erase f) (to_remove_of (new_ids_of ids) (current_ids_of f s)) @ es
     \<and> list_all (is_add_event f (to_add_of (new_ids_of ids) (current_ids_of f s)) (length (heap s))) es"
  using onTrackedFeature_trace [of init f ids s] by (auto simp: events_of_def)

lemma onTrackedFeature_hydrated:
  assumes "map_find k (tracked f (snd (onTrackedFeature init f ids s))) = Some p"
  shows "map_find k (tracked f s) = Some p
     \<or> hydrated init f k (heap (snd (onTrackedFeature init f ids s))) p"
proof -
  let ?R = "to_remove_of (new_ids_of ids) (current_ids_of f s)"
  let ?A = "to_add_of (new_ids_of ids) (current_ids_of f s)"
  have eq: "onTrackedFeature init f ids s = add_all init f ?A (erase_all f ?R s)"
    by (simp add: onTrackedFeature_def Let_def)
  from assms have "map_find k (tracked f (erase_all f ?R s)) = Some p
      \<or> hydrated init f k (heap (snd (add_all init f ?A (erase_all f ?R s)))) p"
    unfolding eq by (rule add_all_hydrated)
  then show ?thesis
    unfolding eq by (auto simp: map_find_erase_all split: if_splits)
qed

lemma onTrackedFeature_ok:
  assumes "listener_ok s"
  shows "listener_ok (snd (onTrackedFeature init f ids s))"
  unfolding tracked_cases
proof
  fix g
  have okg: "std_map_ok (tracked g s)" using assms by (simp add: tracked_cases)
  show "std_map_ok (tracked g (snd (onTrackedFeature init f ids s)))"
  proof (cases "g = f")
    case True
    have "std_map_ok (tracked f (erase_all f (to_remove_of (new_ids_of ids) (current_ids_of f s)) s))"
      using okg True by (simp add: tracked_erase_all std_map_ok_filter)
    then show ?thesis
      using True by (simp add: onTrackedFeature_def Let_def add_all_ok)
  next
    case False
    then show ?thesis using okg by (simp add: onTrackedFeature_other)
  qed
qed

lemma new_listener_ok: "listener_ok new_listener"
  by (simp add: listener_ok_def new_listener_def std_map_ok_def keys_def)

lemma is_add_event_not_notify: "is_add_event f A n e \<Longrightarrow> \<not> is_notify e"
  by (cases e) auto

lemma onTrackedFeature_never_notifies:
  "notifications (events_of s (snd (onTrackedFeature init f ids s))) = []"
proof -
  obtain es where es: "events_of s (snd (onTrackedFeature init f ids s)) =
          map (Erase f) (to_remove_of (new_ids_of ids) (current_ids_of f s)) @ es"
     "list_all (is_add_event f (to_add_of (new_ids_of ids) (current_ids_of f s)) (length (heap s))) es"
    using onTrackedFeature_events [of s init f ids] by blast
  have "filter is_notify es = []"
    using es(2) by (auto simp: list_all_iff filter_empty_conv dest: is_add_event_not_notify)
  moreover have "filter is_notify (map (Erase f) (to_remove_of (new_ids_of ids) (current_ids_of f s))) = []"
    by (simp add: filter_empty_conv image_iff)
  ultimately show ?thesis by (simp add: notifications_def es(1))
qed

subsection \<open>The getters\<close>

lemma insort_key_last: "\<forall>x\<in>set xs. f x < f a \<Longrightarrow> insort_key f a xs = xs @ [a]"
  by (induction xs) auto

lemma weak_copy_fold:
  "sorted (keys (acc @ m)) \<Longrightarrow> distinct (keys (acc @ m)) \<Longrightarrow>
     fold (\<lambda>f result. map_assign (fst f) (weak_of (snd f)) result) m
       (map (\<lambda>kv. (fst kv, weak_of (snd kv))) acc)
     = map (\<lambda>kv. (fst kv, weak_of (snd kv))) (acc @ m)"
proof (induction m arbitrary: acc)
  case Nil
  show ?case by simp
next
  case (Cons kv m)
  let ?W = "\<lambda>kv. (fst kv, weak_of (snd kv))"
  have notin: "fst kv \<notin> set (keys (map ?W acc))"
    using Cons.prems(2) by (auto simp: keys_def)
  have less: "\<forall>x\<in>set (map ?W acc). fst x < fst (?W kv)"
  proof
    fix x assume "x \<in> set (map ?W acc)"
    then have mem: "fst x \<in> fst ` set acc" by force
    then have "fst x \<le> fst kv"
      using Cons.prems(1) by (auto simp: keys_def sorted_append)
    moreover have "fst kv \<notin> fst ` set acc"
      using Cons.prems(2) by (simp add: keys_def)
    then have "fst x \<noteq> fst kv"
      using mem by metis
    ultimately show "fst x < fst (?W kv)" by simp
  qed
  have step: "map_assign (fst kv) (weak_of (snd kv)) (map ?W acc) = map ?W (acc @ [kv])"
    using notin insort_key_last [OF less] by (simp add: map_assign_def)
  have "fold (\<lambda>f result. map_assign (fst f) (weak_of (snd f)) result) m (map ?W (acc @ [kv]))
      = map ?W ((acc @ [kv]) @ m)"
    using Cons.prems by (intro Cons.IH) simp_all
  then show ?case by (simp add: step)
qed

lemma weak_copy_eq:
  "std_map_ok m \<Longrightarrow> weak_copy m = map (\<lambda>kv. (fst kv, weak_of (snd kv))) m"
  using weak_copy_fold [of "[]" m] by (simp add: weak_copy_def std_map_ok_def)

lemma keys_weak_copy: "std_map_ok m \<Longrightarrow> keys (weak_copy m) = keys m"
  by (simp add: weak_copy_eq keys_def comp_def)

lemma map_of_weak:
  "map_of (map (\<lambda>kv. (fst kv, weak_of (snd kv))) m) k = map_option weak_of (map_of m k)"
  by (induction m) auto

lemma map_find_weak_copy:
  "std_map_ok m \<Longrightarrow> map_find k (weak_copy m) = map_option weak_of (map_find k m)"
  by (simp add: weak_copy_eq map_find_def map_of_weak)

lemma weak_of_addr: "weak_of p = WeakPtr (addr_of p)"
  by (cases p) simp

lemma return_map_new: "returns_new_map s (return_map v s) v"
  by (simp add: returns_new_map_def return_map_def)

lemma map_at_onTrackedFeature:
  "map_at (snd (onTrackedFeature init f ids s)) (Result n) = map_at s (Result n)"
  by (simp add: onTrackedFeature_results)

lemma later_call_keeps_result:
  "map_at (snd (onTrackedFeature init f ids (snd (return_map v s)))) (fst (return_map v s)) = Some v"
  by (simp add: return_map_def onTrackedFeature_results)

lemma owners_return_map: "owners (snd (return_map v s)) = owners s @ shared_of v"
  by (simp add: return_map_def owners_def)

lemma onFace_ok: "listener_ok s \<Longrightarrow> listener_ok (onFace cb s)"
  by (simp add: listener_ok_def onFace_def)

lemma onBody_ok: "listener_ok s \<Longrightarrow> listener_ok (onBody cb s)"
  by (simp add: listener_ok_def onBody_def)

lemma onVoice_ok: "listener_ok s \<Longrightarrow> listener_ok (onVoice cb s)"
  by (simp add: listener_ok_def onVoice_def)

lemma onPerson_ok: "listener_ok s \<Longrightarrow> listener_ok (onPerson cb s)"
  by (simp add: listener_ok_def onPerson_def)

section \<open>The claims\<close>

text \<open>
  In what follows a call of \<^verbatim>\<open>onTrackedFeature\<close> completes when its status is
  \<open>Completed\<close>: no \<^verbatim>\<open>init()\<close> threw, and the call returned to its caller.
\<close>

text \<open>
  Claim C1. For every category and every announced ID list (the empty list too), after
  \<^verbatim>\<open>onTrackedFeature\<close> completes, the key set of that category's map is exactly the set of
  the IDs of the list. The call completes whenever \<^verbatim>\<open>init()\<close> returns for the announced
  IDs.
\<close>

theorem C1_key_set_equals_snapshot:
  "(fst (onTrackedFeature init f ids s) = Completed \<longrightarrow>
      set (keys (tracked f (snd (onTrackedFeature init f ids s)))) = set ids)
   \<and> ((\<forall>i\<in>set ids. init_returns init f i) \<longrightarrow>
      fst (onTrackedFeature init f ids s) = Completed)"
proof (intro conjI impI)
  assume "fst (onTrackedFeature init f ids s) = Completed"
  then show "set (keys (tracked f (snd (onTrackedFeature init f ids s)))) = set ids"
    by (rule onTrackedFeature_keys_Completed)
next
  assume "\<forall>i\<in>set ids. init_returns init f i"
  then show "fst (onTrackedFeature init f ids s) = Completed"
    by (simp add: onTrackedFeature_status set_to_add_of set_new_ids_of)
qed

theorem C1_witness:
  "fst (onTrackedFeature init_fine face [''B'', ''A'', ''B''] tracking_A) = Completed
   \<and> set (keys (faces (snd (onTrackedFeature init_fine face [''B'', ''A'', ''B''] tracking_A))))
       = {''A'', ''B''}
   \<and> fst (onTrackedFeature init_fine face [] tracking_A) = Completed
   \<and> keys (faces (snd (onTrackedFeature init_fine face [] tracking_A))) = []"
proof -
  have r: "\<forall>i\<in>set [''B'', ''A'', ''B'']. init_returns init_fine face i"
    by (simp add: init_returns_def init_fine_def)
  have c: "fst (onTrackedFeature init_fine face [''B'', ''A'', ''B''] tracking_A) = Completed"
    using C1_key_set_equals_snapshot [of init_fine face "[''B'', ''A'', ''B'']" tracking_A] r
    by blast
  have k: "set (keys (tracked face (snd (onTrackedFeature init_fine face [''B'', ''A'', ''B''] tracking_A))))
      = set [''B'', ''A'', ''B'']"
    using C1_key_set_equals_snapshot [of init_fine face "[''B'', ''A'', ''B'']" tracking_A] c
    by blast
  have c0: "fst (onTrackedFeature init_fine face [] tracking_A) = Completed"
    using C1_key_set_equals_snapshot [of init_fine face "[]" tracking_A] by simp
  have k0: "set (keys (tracked face (snd (onTrackedFeature init_fine face [] tracking_A)))) = set []"
    using C1_key_set_equals_snapshot [of init_fine face "[]" tracking_A] c0 by blast
  show ?thesis
    using c k c0 k0 by (auto simp: tracked_def)
qed

text \<open>
  Claim C2. For every ID of \<open>to_add\<close>, exactly one notification fires to each observer
  registered for the category, after the new entity is in the map. The code does not do
  this: \<^verbatim>\<open>onTrackedFeature\<close> never reads a callback list. On a listener with one face
  callback that tracks the face \<open>A\<close>, the snapshot \<open>A, C\<close> puts \<open>C\<close> in \<open>to_add\<close> and
  inserts it, and the call ends with no notification.
\<close>

theorem C2_no_notification_fires:
  "callbacks face tracking_A = [7]
   \<and> to_add_of (new_ids_of [''A'', ''C'']) (current_ids_of face tracking_A) = [''C'']
   \<and> fst (onTrackedFeature init_fine face [''A'', ''C''] tracking_A) = Completed
   \<and> map_find ''C'' (faces (snd (onTrackedFeature init_fine face [''A'', ''C''] tracking_A)))
       = Some (SharedPtr 1)
   \<and> events_of tracking_A (snd (onTrackedFeature init_fine face [''A'', ''C''] tracking_A))
       = [Init 1, Insert face ''C'' (SharedPtr 1)]
   \<and> notifications
       (events_of tracking_A (snd (onTrackedFeature init_fine face [''A'', ''C''] tracking_A))) = []"
  by code_simp

text \<open>
  Claim C3. For every ID \<open>x\<close> that is in the category's map before the call and in the new
  snapshot, the map holds for \<open>x\<close> the same pointer after the call, the object it points
  to is unchanged, and the call neither erased \<open>x\<close>, nor inserted anything under \<open>x\<close>, nor
  called \<^verbatim>\<open>init()\<close> on its object. This holds also for a call that an \<^verbatim>\<open>init()\<close> cut
  short.
\<close>

theorem C3_identity_preserved:
  assumes "map_find x (tracked f s) = Some p" and "x \<in> set ids"
    and "deref (heap s) (addr_of p) = Some e"
  shows "map_find x (tracked f (snd (onTrackedFeature init f ids s))) = Some p
    \<and> deref (heap (snd (onTrackedFeature init f ids s))) (addr_of p) = Some e
    \<and> Erase f x \<notin> set (events_of s (snd (onTrackedFeature init f ids s)))
    \<and> Insert f x q \<notin> set (events_of s (snd (onTrackedFeature init f ids s)))
    \<and> Init (addr_of p) \<notin> set (events_of s (snd (onTrackedFeature init f ids s)))"
proof -
  let ?s' = "snd (onTrackedFeature init f ids s)"
  let ?R = "to_remove_of (new_ids_of ids) (current_ids_of f s)"
  let ?A = "to_add_of (new_ids_of ids) (current_ids_of f s)"
  have key: "x \<in> set (keys (tracked f s))"
    using assms(1) map_find_None [of x "tracked f s"] by auto
  have live: "addr_of p < length (heap s)"
    using assms(3) by (auto simp: deref_def split: if_splits)
  have 1: "map_find x (tracked f ?s') = Some p"
    using onTrackedFeature_find_kept [OF key assms(2)] assms(1) by simp
  have ent: "(x, p) \<in> set (tracked f s)"
    using assms(1) by (simp add: map_find_def map_of_SomeD)
  have 2: "deref (heap ?s') (addr_of p) = Some e"
    using onTrackedFeature_deref_kept [OF ent assms(2) live] assms(3) by simp
  obtain es where es: "events_of s ?s' = map (Erase f) ?R @ es"
    "list_all (is_add_event f ?A (length (heap s))) es"
    using onTrackedFeature_events [of s init f ids] by blast
  have nr: "x \<notin> set ?R"
    using assms(2) by (simp add: set_to_remove_of set_new_ids_of)
  have na: "x \<notin> set ?A"
    using key by (simp add: set_to_add_of set_current_ids_of)
  have 3: "Erase f x \<notin> set (events_of s ?s')"
    using es nr by (auto simp: list_all_iff)
  have 4: "Insert f x q \<notin> set (events_of s ?s')"
    using es na by (auto simp: list_all_iff)
  have 5: "Init (addr_of p) \<notin> set (events_of s ?s')"
    using es live by (auto simp: list_all_iff)
  from 1 2 3 4 5 show ?thesis by simp
qed

theorem C3_witness:
  "map_find ''A'' (faces (snd (onTrackedFeature init_fine face [''C'', ''A''] tracking_A)))
     = Some (SharedPtr 0)
   \<and> deref (heap (snd (onTrackedFeature init_fine face [''C'', ''A''] tracking_A))) 0
     = Some \<lparr>ent_id = ''A'', ent_type = face, detail = Some 5\<rparr>"
proof -
  have 1: "map_find ''A'' (tracked face tracking_A) = Some (SharedPtr 0)"
    by (simp add: map_find_def tracked_def tracking_A_def)
  have 2: "''A'' \<in> set [''C'', ''A'']" by simp
  have 3: "deref (heap tracking_A) (addr_of (SharedPtr 0))
      = Some \<lparr>ent_id = ''A'', ent_type = face, detail = Some 5\<rparr>"
    by (simp add: deref_def tracking_A_def)
  show ?thesis
    using C3_identity_preserved [OF 1 2 3, of init_fine] by (simp add: tracked_def)
qed

text \<open>
  Claim C4. For every category and every ID list, when a call of \<^verbatim>\<open>onTrackedFeature\<close> has
  completed, a second call with the same list computes an empty \<open>to_add\<close> and an empty
  \<open>to_remove\<close>, completes, fires no notification (it has no event at all) and returns
  the state it was given, whatever \<^verbatim>\<open>init()\<close> would do in the second call.
\<close>

theorem C4_second_call_changes_nothing:
  assumes "onTrackedFeature init f ids s = (Completed, s1)"
  shows "to_add_of (new_ids_of ids) (current_ids_of f s1) = []
    \<and> to_remove_of (new_ids_of ids) (current_ids_of f s1) = []
    \<and> onTrackedFeature init' f ids s1 = (Completed, s1)
    \<and> events_of s1 (snd (onTrackedFeature init' f ids s1)) = []
    \<and> notifications (events_of s1 (snd (onTrackedFeature init' f ids s1))) = []"
proof -
  have "fst (onTrackedFeature init f ids s) = Completed"
    by (simp add: assms)
  then have "set (keys (tracked f (snd (onTrackedFeature init f ids s)))) = set ids"
    by (rule onTrackedFeature_keys_Completed)
  then have keys: "set (keys (tracked f s1)) = set ids"
    by (simp add: assms)
  have "set (to_add_of (new_ids_of ids) (current_ids_of f s1)) = {}"
    by (simp add: set_to_add_of set_new_ids_of set_current_ids_of keys)
  then have a: "to_add_of (new_ids_of ids) (current_ids_of f s1) = []"
    by simp
  have "set (to_remove_of (new_ids_of ids) (current_ids_of f s1)) = {}"
    by (simp add: set_to_remove_of set_new_ids_of set_current_ids_of keys)
  then have r: "to_remove_of (new_ids_of ids) (current_ids_of f s1) = []"
    by simp
  have again: "onTrackedFeature init' f ids s1 = (Completed, s1)"
    by (simp add: onTrackedFeature_def Let_def a r erase_all_Nil)
  show ?thesis
    by (simp add: a r again events_of_def notifications_def)
qed

theorem C4_witness:
  "onTrackedFeature init_faulty face [''A'', ''C'']
     (snd (onTrackedFeature init_fine face [''A'', ''C''] tracking_A))
   = (Completed, snd (onTrackedFeature init_fine face [''A'', ''C''] tracking_A))"
proof -
  have "fst (onTrackedFeature init_fine face [''A'', ''C''] tracking_A) = Completed"
    by code_simp
  then have "onTrackedFeature init_fine face [''A'', ''C''] tracking_A
      = (Completed, snd (onTrackedFeature init_fine face [''A'', ''C''] tracking_A))"
    by (metis prod.collapse)
  then show ?thesis
    using C4_second_call_changes_nothing [of init_fine face "[''A'', ''C'']" tracking_A] by blast
qed

text \<open>
  Claim C5. In every call the sets \<open>to_add\<close> and \<open>to_remove\<close> are disjoint, and every
  removal is applied to the map before any addition. The call is the second loop run
  from the state \<open>erase_all f to_remove s\<close>. In that state the events of the call
  so far are the erasures of \<open>to_remove\<close> and nothing else, and the map has lost exactly
  the IDs of \<open>to_remove\<close> and holds no ID of \<open>to_add\<close> yet. From there on the call has
  only events of the second loop (an \<^verbatim>\<open>init()\<close> or an insertion of an ID of \<open>to_add\<close>),
  the map changes as these events say, in their order, and it loses no key. Over the
  whole call the map is the old map with the events of the call applied in order.
\<close>

theorem C5_removals_before_additions:
  "set (to_add_of (new_ids_of ids) (current_ids_of f s))
     \<inter> set (to_remove_of (new_ids_of ids) (current_ids_of f s)) = {}
   \<and> onTrackedFeature init f ids s
       = add_all init f (to_add_of (new_ids_of ids) (current_ids_of f s))
           (erase_all f (to_remove_of (new_ids_of ids) (current_ids_of f s)) s)
   \<and> events_of s (erase_all f (to_remove_of (new_ids_of ids) (current_ids_of f s)) s)
       = map (Erase f) (to_remove_of (new_ids_of ids) (current_ids_of f s))
   \<and> set (keys (tracked f (erase_all f (to_remove_of (new_ids_of ids) (current_ids_of f s)) s)))
       = set (keys (tracked f s)) - set (to_remove_of (new_ids_of ids) (current_ids_of f s))
   \<and> set (keys (tracked f (erase_all f (to_remove_of (new_ids_of ids) (current_ids_of f s)) s)))
       \<inter> set (to_add_of (new_ids_of ids) (current_ids_of f s)) = {}
   \<and> (\<exists>es. events_of s (snd (onTrackedFeature init f ids s))
          = map (Erase f) (to_remove_of (new_ids_of ids) (current_ids_of f s)) @ es
        \<and> list_all (is_add_event f (to_add_of (new_ids_of ids) (current_ids_of f s))
            (length (heap s))) es
        \<and> tracked f (snd (onTrackedFeature init f ids s))
          = fold (apply_event f) es
              (tracked f (erase_all f (to_remove_of (new_ids_of ids) (current_ids_of f s)) s)))
   \<and> set (keys (tracked f (erase_all f (to_remove_of (new_ids_of ids) (current_ids_of f s)) s)))
       \<subseteq> set (keys (tracked f (snd (onTrackedFeature init f ids s))))
   \<and> tracked f (snd (onTrackedFeature init f ids s))
       = fold (apply_event f) (events_of s (snd (onTrackedFeature init f ids s))) (tracked f s)"
proof -
  let ?R = "to_remove_of (new_ids_of ids) (current_ids_of f s)"
  let ?A = "to_add_of (new_ids_of ids) (current_ids_of f s)"
  let ?mid = "erase_all f ?R s"
  let ?s' = "snd (onTrackedFeature init f ids s)"
  have 1: "set ?A \<inter> set ?R = {}"
    by (auto simp: set_to_add_of set_to_remove_of)
  have 2: "onTrackedFeature init f ids s = add_all init f ?A ?mid"
    by (simp add: onTrackedFeature_def Let_def)
  have 3: "events_of s ?mid = map (Erase f) ?R"
    by (simp add: events_of_def trace_erase_all)
  have 4: "set (keys (tracked f ?mid)) = set (keys (tracked f s)) - set ?R"
    by (rule keys_erase_all)
  have 5: "set (keys (tracked f ?mid)) \<inter> set ?A = {}"
    unfolding 4 by (auto simp: set_to_add_of set_current_ids_of)
  obtain es where es: "trace (snd (add_all init f ?A ?mid)) = trace ?mid @ es"
    "list_all (is_add_event f ?A (length (heap ?mid))) es"
    "tracked f (snd (add_all init f ?A ?mid)) = fold (apply_event f) es (tracked f ?mid)"
    using add_all_trace [of init f ?A ?mid] by blast
  have "events_of s ?s' = map (Erase f) ?R @ es"
    by (simp add: events_of_def 2 es(1) trace_erase_all)
  moreover have "list_all (is_add_event f ?A (length (heap s))) es"
    using es(2) by (simp add: length_heap_erase_all)
  moreover have "tracked f ?s' = fold (apply_event f) es (tracked f ?mid)"
    unfolding 2 by (rule es(3))
  ultimately have 6: "\<exists>es. events_of s ?s' = map (Erase f) ?R @ es
      \<and> list_all (is_add_event f ?A (length (heap s))) es
      \<and> tracked f ?s' = fold (apply_event f) es (tracked f ?mid)"
    by blast
  have 7: "set (keys (tracked f ?mid)) \<subseteq> set (keys (tracked f ?s'))"
    unfolding 2 by (simp add: add_all_keys)
  have 8: "tracked f ?s' = fold (apply_event f) (events_of s ?s') (tracked f s)"
    by (rule onTrackedFeature_replay)
  from 1 2 3 4 5 6 7 8 show ?thesis
    by blast
qed

theorem C5_witness:
  "to_add_of (new_ids_of [''C'', ''B'']) (current_ids_of face tracking_many) = [''C'']
   \<and> to_remove_of (new_ids_of [''C'', ''B'']) (current_ids_of face tracking_many) = [''A'']
   \<and> events_of tracking_many (erase_all face [''A''] tracking_many) = [Erase face ''A'']
   \<and> faces (erase_all face [''A''] tracking_many) = [(''B'', SharedPtr 0)]
   \<and> set (keys (faces (erase_all face [''A''] tracking_many))) = {''A'', ''B''} - {''A''}
   \<and> events_of tracking_many (snd (onTrackedFeature init_fine face [''C'', ''B''] tracking_many))
       = [Erase face ''A'', Init 8, Insert face ''C'' (SharedPtr 8)]
   \<and> faces (snd (onTrackedFeature init_fine face [''C'', ''B''] tracking_many))
       = [(''B'', SharedPtr 0), (''C'', SharedPtr 8)]
   \<and> deref (heap (snd (onTrackedFeature init_fine face [''C'', ''B''] tracking_many))) 1 = None"
proof -
  have a: "to_add_of (new_ids_of [''C'', ''B'']) (current_ids_of face tracking_many) = [''C'']"
    by code_simp
  have r: "to_remove_of (new_ids_of [''C'', ''B'']) (current_ids_of face tracking_many) = [''A'']"
    by code_simp
  have k: "set (keys (tracked face tracking_many)) = {''A'', ''B''}"
    by (auto simp: keys_def tracked_def tracking_many_def)
  note inst = C5_removals_before_additions [of "[''C'', ''B'']" face tracking_many init_fine,
      unfolded a r k]
  have 1: "events_of tracking_many (erase_all face [''A''] tracking_many) = [Erase face ''A'']"
    using inst by simp
  have 2: "set (keys (faces (erase_all face [''A''] tracking_many))) = {''A'', ''B''} - {''A''}"
    using inst by (simp add: tracked_def)
  have 3: "faces (erase_all face [''A''] tracking_many) = [(''B'', SharedPtr 0)]"
    by code_simp
  have 4: "events_of tracking_many (snd (onTrackedFeature init_fine face [''C'', ''B''] tracking_many))
       = [Erase face ''A'', Init 8, Insert face ''C'' (SharedPtr 8)]"
    by code_simp
  have 5: "faces (snd (onTrackedFeature init_fine face [''C'', ''B''] tracking_many))
       = [(''B'', SharedPtr 0), (''C'', SharedPtr 8)]"
    by code_simp
  have 6: "deref (heap (snd (onTrackedFeature init_fine face [''C'', ''B''] tracking_many))) 1 = None"
    by code_simp
  from a r 1 2 3 4 5 6 show ?thesis
    by blast
qed

text \<open>
  Claim C6. If \<^verbatim>\<open>init()\<close> of a new entity faults (it throws, and the call ends with
  \<open>InitFault i\<close>), the entity is not inserted and its ID \<open>i\<close>, an ID of \<open>to_add\<close>, is not a
  key of the category's map after the call. And in every call, whatever its status, a
  pointer that the map holds after the call is one it held before under the same ID, or
  points to an object of that ID and category on which \<^verbatim>\<open>init()\<close> has returned: no
  half-initialised entity is reachable through the map.
\<close>

theorem C6_faulting_init_inserts_nothing:
  "(fst (onTrackedFeature init f ids s) = InitFault i \<longrightarrow>
      init f i = None
      \<and> i \<in> set (to_add_of (new_ids_of ids) (current_ids_of f s))
      \<and> i \<notin> set (keys (tracked f (snd (onTrackedFeature init f ids s)))))
   \<and> (\<forall>k p. map_find k (tracked f (snd (onTrackedFeature init f ids s))) = Some p \<longrightarrow>
        map_find k (tracked f s) = Some p
        \<or> hydrated init f k (heap (snd (onTrackedFeature init f ids s))) p)"
proof (intro conjI impI allI)
  let ?A = "to_add_of (new_ids_of ids) (current_ids_of f s)"
  let ?R = "to_remove_of (new_ids_of ids) (current_ids_of f s)"
  assume "fst (onTrackedFeature init f ids s) = InitFault i"
  then have "fst (add_all init f ?A (erase_all f ?R s)) = InitFault i"
    by (simp add: onTrackedFeature_def Let_def)
  then have f: "init f i = None \<and> i \<in> set ?A \<and> i \<notin> set (takeWhile (init_returns init f) ?A)"
    by (rule add_all_InitFault)
  then show "init f i = None" and "i \<in> set ?A"
    by simp_all
  have "i \<notin> set (keys (tracked f s))"
    using f by (simp add: set_to_add_of set_current_ids_of)
  then show "i \<notin> set (keys (tracked f (snd (onTrackedFeature init f ids s))))"
    using f by (simp add: onTrackedFeature_keys)
next
  fix k p
  assume "map_find k (tracked f (snd (onTrackedFeature init f ids s))) = Some p"
  then show "map_find k (tracked f s) = Some p
        \<or> hydrated init f k (heap (snd (onTrackedFeature init f ids s))) p"
    by (rule onTrackedFeature_hydrated)
qed

theorem C6_witness:
  "fst (onTrackedFeature init_faulty face [''C'', ''B'', ''A'', ''0''] tracking_A) = InitFault ''B''
   \<and> init_faulty face ''B'' = None
   \<and> ''B'' \<notin> set (keys (faces (snd (onTrackedFeature init_faulty face [''C'', ''B'', ''A'', ''0''] tracking_A))))
   \<and> map_find ''0'' (faces (snd (onTrackedFeature init_faulty face [''C'', ''B'', ''A'', ''0''] tracking_A)))
       = Some (SharedPtr 1)
   \<and> hydrated init_faulty face ''0''
       (heap (snd (onTrackedFeature init_faulty face [''C'', ''B'', ''A'', ''0''] tracking_A)))
       (SharedPtr 1)"
proof -
  let ?r = "onTrackedFeature init_faulty face [''C'', ''B'', ''A'', ''0''] tracking_A"
  have st: "fst ?r = InitFault ''B''"
    by code_simp
  have new: "map_find ''0'' (tracked face (snd ?r)) = Some (SharedPtr 1)"
    by code_simp
  have old: "map_find ''0'' (tracked face tracking_A) \<noteq> Some (SharedPtr 1)"
    by code_simp
  note inst = C6_faulting_init_inserts_nothing
    [of init_faulty face "[''C'', ''B'', ''A'', ''0'']" tracking_A "''B''"]
  have a: "init_faulty face ''B'' = None" and b: "''B'' \<notin> set (keys (tracked face (snd ?r)))"
    using inst st by blast+
  have c: "hydrated init_faulty face ''0'' (heap (snd ?r)) (SharedPtr 1)"
    using inst new old by blast
  show ?thesis
    using st a b c new by (simp add: tracked_def)
qed

text \<open>
  Claim C7. On a listener whose maps are well formed, \<^verbatim>\<open>getFaces\<close>, \<^verbatim>\<open>getBodies\<close> and
  \<^verbatim>\<open>getVoices\<close> each return a map of weak pointers that has the keys of the member and
  holds, for each key, the weak pointer to the object that the member's shared pointer
  points to; \<^verbatim>\<open>getPersons\<close> returns a map of shared pointers with the keys and the
  pointers of \<open>persons\<close>. Each getter hands its caller a new map object, which is none of
  the members and was no object before the call, and changes nothing else. A later call
  of \<^verbatim>\<open>onTrackedFeature\<close> does not change the returned map. The weak maps own nothing:
  the shared pointers of the run are as before; the map of \<^verbatim>\<open>getPersons\<close> adds its
  pointers to them.
\<close>

theorem C7_getters_copy_the_key_set:
  assumes "listener_ok s"
  shows "keys (getFaces s) = keys (faces s)
    \<and> (\<forall>k. map_find k (getFaces s) = map_option weak_of (map_find k (faces s)))
    \<and> (\<forall>k p. map_find k (faces s) = Some p \<longrightarrow>
          map_find k (getFaces s) = Some (WeakPtr (addr_of p)))
    \<and> keys (getBodies s) = keys (bodies s)
    \<and> (\<forall>k. map_find k (getBodies s) = map_option weak_of (map_find k (bodies s)))
    \<and> (\<forall>k p. map_find k (bodies s) = Some p \<longrightarrow>
          map_find k (getBodies s) = Some (WeakPtr (addr_of p)))
    \<and> keys (getVoices s) = keys (voices s)
    \<and> (\<forall>k. map_find k (getVoices s) = map_option weak_of (map_find k (voices s)))
    \<and> (\<forall>k p. map_find k (voices s) = Some p \<longrightarrow>
          map_find k (getVoices s) = Some (WeakPtr (addr_of p)))
    \<and> keys (getPersons s) = keys (persons s)
    \<and> (\<forall>k. map_find k (getPersons s) = map_find k (persons s))
    \<and> returns_new_map s (call_getFaces s) (WeakMap (getFaces s))
    \<and> returns_new_map s (call_getBodies s) (WeakMap (getBodies s))
    \<and> returns_new_map s (call_getVoices s) (WeakMap (getVoices s))
    \<and> returns_new_map s (call_getPersons s) (SharedMap (getPersons s))
    \<and> map_at (snd (onTrackedFeature init f ids (snd (call_getFaces s)))) (fst (call_getFaces s))
        = Some (WeakMap (getFaces s))
    \<and> map_at (snd (onTrackedFeature init f ids (snd (call_getBodies s)))) (fst (call_getBodies s))
        = Some (WeakMap (getBodies s))
    \<and> map_at (snd (onTrackedFeature init f ids (snd (call_getVoices s)))) (fst (call_getVoices s))
        = Some (WeakMap (getVoices s))
    \<and> map_at (snd (onTrackedFeature init f ids (snd (call_getPersons s)))) (fst (call_getPersons s))
        = Some (SharedMap (getPersons s))
    \<and> owners (snd (call_getFaces s)) = owners s
    \<and> owners (snd (call_getBodies s)) = owners s
    \<and> owners (snd (call_getVoices s)) = owners s
    \<and> owners (snd (call_getPersons s)) = owners s @ map snd (persons s)"
proof -
  have ok: "std_map_ok (faces s)" "std_map_ok (bodies s)" "std_map_ok (voices s)"
    using assms by (simp_all add: listener_ok_def)
  have k: "keys (getFaces s) = keys (faces s)" "keys (getBodies s) = keys (bodies s)"
    "keys (getVoices s) = keys (voices s)" "keys (getPersons s) = keys (persons s)"
    by (simp_all add: getFaces_def getBodies_def getVoices_def getPersons_def
        keys_weak_copy [OF ok(1)] keys_weak_copy [OF ok(2)] keys_weak_copy [OF ok(3)])
  have m: "\<forall>k. map_find k (getFaces s) = map_option weak_of (map_find k (faces s))"
    "\<forall>k. map_find k (getBodies s) = map_option weak_of (map_find k (bodies s))"
    "\<forall>k. map_find k (getVoices s) = map_option weak_of (map_find k (voices s))"
    "\<forall>k. map_find k (getPersons s) = map_find k (persons s)"
    by (simp_all add: getFaces_def getBodies_def getVoices_def getPersons_def
        map_find_weak_copy [OF ok(1)] map_find_weak_copy [OF ok(2)] map_find_weak_copy [OF ok(3)])
  have a: "\<forall>k p. map_find k (faces s) = Some p \<longrightarrow>
          map_find k (getFaces s) = Some (WeakPtr (addr_of p))"
    "\<forall>k p. map_find k (bodies s) = Some p \<longrightarrow>
          map_find k (getBodies s) = Some (WeakPtr (addr_of p))"
    "\<forall>k p. map_find k (voices s) = Some p \<longrightarrow>
          map_find k (getVoices s) = Some (WeakPtr (addr_of p))"
    using m by (simp_all add: weak_of_addr)
  have n: "returns_new_map s (call_getFaces s) (WeakMap (getFaces s))"
    "returns_new_map s (call_getBodies s) (WeakMap (getBodies s))"
    "returns_new_map s (call_getVoices s) (WeakMap (getVoices s))"
    "returns_new_map s (call_getPersons s) (SharedMap (getPersons s))"
    by (simp_all add: call_getFaces_def call_getBodies_def call_getVoices_def
        call_getPersons_def return_map_new)
  have l: "map_at (snd (onTrackedFeature init f ids (snd (call_getFaces s)))) (fst (call_getFaces s))
        = Some (WeakMap (getFaces s))"
    "map_at (snd (onTrackedFeature init f ids (snd (call_getBodies s)))) (fst (call_getBodies s))
        = Some (WeakMap (getBodies s))"
    "map_at (snd (onTrackedFeature init f ids (snd (call_getVoices s)))) (fst (call_getVoices s))
        = Some (WeakMap (getVoices s))"
    "map_at (snd (onTrackedFeature init f ids (snd (call_getPersons s)))) (fst (call_getPersons s))
        = Some (SharedMap (getPersons s))"
    by (simp_all add: call_getFaces_def call_getBodies_def call_getVoices_def
        call_getPersons_def later_call_keeps_result)
  have w: "owners (snd (call_getFaces s)) = owners s"
    "owners (snd (call_getBodies s)) = owners s"
    "owners (snd (call_getVoices s)) = owners s"
    "owners (snd (call_getPersons s)) = owners s @ map snd (persons s)"
    by (simp_all add: call_getFaces_def call_getBodies_def call_getVoices_def
        call_getPersons_def owners_return_map getPersons_def)
  from k m a n l w show ?thesis
    by blast
qed

theorem C7_witness:
  "listener_ok tracking_many
   \<and> getFaces tracking_many = [(''A'', WeakPtr 1), (''B'', WeakPtr 0)]
   \<and> getBodies tracking_many = [(''X'', WeakPtr 2), (''Y'', WeakPtr 3)]
   \<and> getVoices tracking_many = [(''V'', WeakPtr 4)]
   \<and> getPersons tracking_many = [(''P'', SharedPtr 5), (''Q'', SharedPtr 6)]
   \<and> keys (getFaces tracking_many) = keys (faces tracking_many)
   \<and> map_find ''A'' (getFaces tracking_many) = Some (WeakPtr 1)
   \<and> map_find ''Y'' (getBodies tracking_many) = Some (WeakPtr 3)
   \<and> map_find ''V'' (getVoices tracking_many) = Some (WeakPtr 4)
   \<and> map_find ''Q'' (getPersons tracking_many) = Some (SharedPtr 6)
   \<and> fst (call_getFaces tracking_many) = Result 1
   \<and> map_at tracking_many (Result 1) = None
   \<and> map_at (snd (call_getFaces tracking_many)) (Result 1)
       = Some (WeakMap [(''A'', WeakPtr 1), (''B'', WeakPtr 0)])
   \<and> faces (snd (onTrackedFeature init_fine face [''B''] (snd (call_getFaces tracking_many))))
       = [(''B'', SharedPtr 0)]
   \<and> map_at (snd (onTrackedFeature init_fine face [''B''] (snd (call_getFaces tracking_many))))
         (Result 1)
       = Some (WeakMap [(''A'', WeakPtr 1), (''B'', WeakPtr 0)])
   \<and> deref (heap (snd (onTrackedFeature init_fine face [''B''] (snd (call_getFaces tracking_many))))) 1
       = None
   \<and> persons (snd (onTrackedFeature init_fine person [] (snd (call_getPersons tracking_many)))) = []
   \<and> map_at (snd (onTrackedFeature init_fine person [] (snd (call_getPersons tracking_many))))
         (Result 1)
       = Some (SharedMap [(''P'', SharedPtr 5), (''Q'', SharedPtr 6)])
   \<and> deref (heap (snd (onTrackedFeature init_fine person [] (snd (call_getPersons tracking_many))))) 6
       = Some \<lparr>ent_id = ''Q'', ent_type = person, detail = Some 4\<rparr>
   \<and> deref (heap (snd (onTrackedFeature init_fine person [] tracking_many))) 6 = None"
proof -
  have ok: "listener_ok tracking_many"
    by (simp add: listener_ok_def std_map_ok_def keys_def tracking_many_def)
  have g: "getFaces tracking_many = [(''A'', WeakPtr 1), (''B'', WeakPtr 0)]"
    "getBodies tracking_many = [(''X'', WeakPtr 2), (''Y'', WeakPtr 3)]"
    "getVoices tracking_many = [(''V'', WeakPtr 4)]"
    "getPersons tracking_many = [(''P'', SharedPtr 5), (''Q'', SharedPtr 6)]"
    by code_simp+
  have st: "map_find ''A'' (faces tracking_many) = Some (SharedPtr 1)"
    "map_find ''Y'' (bodies tracking_many) = Some (SharedPtr 3)"
    "map_find ''V'' (voices tracking_many) = Some (SharedPtr 4)"
    "map_find ''Q'' (persons tracking_many) = Some (SharedPtr 6)"
    by (simp_all add: map_find_def tracking_many_def)
  have r: "fst (call_getFaces tracking_many) = Result 1"
    by code_simp
  note inst = C7_getters_copy_the_key_set [OF ok]
  have 1: "keys (getFaces tracking_many) = keys (faces tracking_many)"
    using inst by blast
  have 2: "map_find ''A'' (getFaces tracking_many) = Some (WeakPtr 1)"
    "map_find ''Y'' (getBodies tracking_many) = Some (WeakPtr 3)"
    "map_find ''V'' (getVoices tracking_many) = Some (WeakPtr 4)"
    using inst st by fastforce+
  have 3: "map_find ''Q'' (getPersons tracking_many) = Some (SharedPtr 6)"
    using inst st by simp
  have "returns_new_map tracking_many (call_getFaces tracking_many) (WeakMap (getFaces tracking_many))"
    using inst by blast
  then have 4: "map_at tracking_many (Result 1) = None"
    "map_at (snd (call_getFaces tracking_many)) (Result 1)
       = Some (WeakMap [(''A'', WeakPtr 1), (''B'', WeakPtr 0)])"
    unfolding returns_new_map_def r g by blast+
  have 5: "map_at (snd (onTrackedFeature init_fine face [''B''] (snd (call_getFaces tracking_many))))
         (Result 1)
       = Some (WeakMap [(''A'', WeakPtr 1), (''B'', WeakPtr 0)])"
    using inst [of init_fine face "[''B'']"] unfolding r g by blast
  have 6: "map_at (snd (onTrackedFeature init_fine person [] (snd (call_getPersons tracking_many))))
         (fst (call_getPersons tracking_many))
       = Some (SharedMap [(''P'', SharedPtr 5), (''Q'', SharedPtr 6)])"
    using inst [of init_fine person "[]"] unfolding g by blast
  have rp: "fst (call_getPersons tracking_many) = Result 1"
    by code_simp
  have 7: "faces (snd (onTrackedFeature init_fine face [''B''] (snd (call_getFaces tracking_many))))
       = [(''B'', SharedPtr 0)]"
    by code_simp
  have 8: "deref (heap (snd (onTrackedFeature init_fine face [''B''] (snd (call_getFaces tracking_many))))) 1
       = None"
    by code_simp
  have 9: "persons (snd (onTrackedFeature init_fine person [] (snd (call_getPersons tracking_many)))) = []"
    by code_simp
  have 10: "deref (heap (snd (onTrackedFeature init_fine person [] (snd (call_getPersons tracking_many))))) 6
       = Some \<lparr>ent_id = ''Q'', ent_type = person, detail = Some 4\<rparr>"
    by code_simp
  have 11: "deref (heap (snd (onTrackedFeature init_fine person [] tracking_many))) 6 = None"
    by code_simp
  from ok g 1 2 3 r 4 5 6 [unfolded rp] 7 8 9 10 11 show ?thesis
    by blast
qed

text \<open>
  Claim C8. Reconciliation factors through set semantics, and no input causes a
  failure. The second part does not hold as it stands: the call fails when \<^verbatim>\<open>init()\<close> of
  a newly added entity throws. On a listener that tracks the face \<open>A\<close>, with an
  \<^verbatim>\<open>init()\<close> that throws for \<open>B\<close>, the snapshot \<open>B\<close> ends the call with \<open>InitFault\<close>, and
  \<open>B\<close> is not tracked afterwards.
\<close>

theorem C8_counterexample:
  "fst (onTrackedFeature init_faulty face [''B''] tracking_A) = InitFault ''B''
   \<and> fst (onTrackedFeature init_faulty face [''B''] tracking_A) \<noteq> Completed
   \<and> keys (faces (snd (onTrackedFeature init_faulty face [''B''] tracking_A))) = []"
  by code_simp

text \<open>
  Claim C8, amended. Two ID lists with the same set of IDs, whatever their order and
  their duplicates, give the same \<open>to_add\<close>, the same \<open>to_remove\<close> and the same result
  (status and whole state, so the same key set). No list is rejected as such: the call
  completes exactly when \<^verbatim>\<open>init()\<close> returns for every ID of \<open>to_add\<close>, so it completes
  whenever \<^verbatim>\<open>init()\<close> returns for the announced IDs; and when it fails, it is
  \<^verbatim>\<open>init()\<close> of an ID of \<open>to_add\<close> that threw.
\<close>

theorem C8_set_semantics:
  assumes "set ids1 = set ids2"
  shows "to_add_of (new_ids_of ids1) (current_ids_of f s)
           = to_add_of (new_ids_of ids2) (current_ids_of f s)
    \<and> to_remove_of (new_ids_of ids1) (current_ids_of f s)
           = to_remove_of (new_ids_of ids2) (current_ids_of f s)
    \<and> onTrackedFeature init f ids1 s = onTrackedFeature init f ids2 s
    \<and> (fst (onTrackedFeature init f ids1 s) = Completed \<longleftrightarrow>
          (\<forall>i\<in>set (to_add_of (new_ids_of ids1) (current_ids_of f s)). init_returns init f i))
    \<and> ((\<forall>i\<in>set ids1. init_returns init f i) \<longrightarrow>
          fst (onTrackedFeature init f ids1 s) = Completed)
    \<and> (\<forall>i. fst (onTrackedFeature init f ids1 s) = InitFault i \<longrightarrow>
          init f i = None \<and> i \<in> set (to_add_of (new_ids_of ids1) (current_ids_of f s)))"
proof -
  let ?A = "to_add_of (new_ids_of ids1) (current_ids_of f s)"
  let ?R = "to_remove_of (new_ids_of ids1) (current_ids_of f s)"
  have n: "new_ids_of ids1 = new_ids_of ids2"
    using assms by (rule new_ids_of_cong)
  have 1: "onTrackedFeature init f ids1 s = onTrackedFeature init f ids2 s"
    by (simp add: onTrackedFeature_def n)
  have 2: "fst (onTrackedFeature init f ids1 s) = Completed \<longleftrightarrow>
      (\<forall>i\<in>set ?A. init_returns init f i)"
    by (rule onTrackedFeature_status)
  have 3: "(\<forall>i\<in>set ids1. init_returns init f i) \<longrightarrow>
      fst (onTrackedFeature init f ids1 s) = Completed"
    by (simp add: onTrackedFeature_status set_to_add_of set_new_ids_of)
  have 4: "\<forall>i. fst (onTrackedFeature init f ids1 s) = InitFault i \<longrightarrow>
      init f i = None \<and> i \<in> set ?A"
  proof (intro allI impI)
    fix i
    assume "fst (onTrackedFeature init f ids1 s) = InitFault i"
    then have "fst (add_all init f ?A (erase_all f ?R s)) = InitFault i"
      by (simp add: onTrackedFeature_def Let_def)
    then show "init f i = None \<and> i \<in> set ?A"
      using add_all_InitFault [of init f ?A "erase_all f ?R s" i] by blast
  qed
  from 1 2 3 4 show ?thesis
    by (simp add: n)
qed

theorem C8_witness:
  "onTrackedFeature init_fine face [''C'', ''B'', ''C'', ''C''] tracking_A
     = onTrackedFeature init_fine face [''B'', ''C''] tracking_A
   \<and> fst (onTrackedFeature init_fine face [''C'', ''B'', ''C'', ''C''] tracking_A) = Completed
   \<and> onTrackedFeature init_faulty face [''C'', ''B'', ''C'', ''C''] tracking_A
     = onTrackedFeature init_faulty face [''B'', ''C''] tracking_A
   \<and> fst (onTrackedFeature init_faulty face [''B'', ''C''] tracking_A) = InitFault ''B''
   \<and> init_faulty face ''B'' = None"
proof -
  have s: "set [''C'', ''B'', ''C'', ''C''] = set [''B'', ''C'']"
    by auto
  have r: "\<forall>i\<in>set [''C'', ''B'', ''C'', ''C'']. init_returns init_fine face i"
    by (simp add: init_returns_def init_fine_def)
  have 1: "onTrackedFeature init_fine face [''C'', ''B'', ''C'', ''C''] tracking_A
     = onTrackedFeature init_fine face [''B'', ''C''] tracking_A
   \<and> fst (onTrackedFeature init_fine face [''C'', ''B'', ''C'', ''C''] tracking_A) = Completed"
    using C8_set_semantics [OF s, of face tracking_A init_fine] r by blast
  have st: "fst (onTrackedFeature init_faulty face [''C'', ''B'', ''C'', ''C''] tracking_A)
      = InitFault ''B''"
    by code_simp
  note inst = C8_set_semantics [OF s, of face tracking_A init_faulty]
  have 2: "onTrackedFeature init_faulty face [''C'', ''B'', ''C'', ''C''] tracking_A
     = onTrackedFeature init_faulty face [''B'', ''C''] tracking_A"
    using inst by blast
  have 3: "init_faulty face ''B'' = None"
    using inst st by blast
  have 4: "fst (onTrackedFeature init_faulty face [''B'', ''C''] tracking_A) = InitFault ''B''"
    using st unfolding 2 .
  from 1 2 3 4 show ?thesis
    by blast
qed

text \<open>
  Claim C9. A call of \<^verbatim>\<open>onTrackedFeature\<close> for the category \<open>f\<close> changes at most the map of
  \<open>f\<close>: the maps of the other three categories and the four callback lists are as
  before.
\<close>

theorem C9_other_members_unchanged:
  "face_callbacks (snd (onTrackedFeature init f ids s)) = face_callbacks s
   \<and> body_callbacks (snd (onTrackedFeature init f ids s)) = body_callbacks s
   \<and> voice_callbacks (snd (onTrackedFeature init f ids s)) = voice_callbacks s
   \<and> person_callbacks (snd (onTrackedFeature init f ids s)) = person_callbacks s
   \<and> (f \<noteq> face \<longrightarrow> faces (snd (onTrackedFeature init f ids s)) = faces s)
   \<and> (f \<noteq> body \<longrightarrow> bodies (snd (onTrackedFeature init f ids s)) = bodies s)
   \<and> (f \<noteq> voice \<longrightarrow> voices (snd (onTrackedFeature init f ids s)) = voices s)
   \<and> (f \<noteq> person \<longrightarrow> persons (snd (onTrackedFeature init f ids s)) = persons s)"
  using onTrackedFeature_callbacks [of face init f ids s]
    onTrackedFeature_callbacks [of body init f ids s]
    onTrackedFeature_callbacks [of voice init f ids s]
    onTrackedFeature_callbacks [of person init f ids s]
    onTrackedFeature_other [of face f init ids s]
    onTrackedFeature_other [of body f init ids s]
    onTrackedFeature_other [of voice f init ids s]
    onTrackedFeature_other [of person f init ids s]
  by (simp add: callbacks_def tracked_def)

theorem C9_witness:
  "faces (snd (onTrackedFeature init_faulty body [''B'', ''C''] tracking_A)) = [(''A'', SharedPtr 0)]
   \<and> face_callbacks (snd (onTrackedFeature init_faulty body [''B'', ''C''] tracking_A)) = [7]
   \<and> voices (snd (onTrackedFeature init_faulty body [''B'', ''C''] tracking_A)) = []
   \<and> persons (snd (onTrackedFeature init_faulty body [''B'', ''C''] tracking_A)) = []"
  using C9_other_members_unchanged [of init_faulty body "[''B'', ''C'']" tracking_A]
  by (simp add: tracking_A_def)

text \<open>
  Claim C10. Two runs of \<^verbatim>\<open>onTrackedFeature\<close> for a category, on listeners whose maps for
  that category have the same key set and on ID lists with the same set of IDs, compute
  the same \<open>to_add\<close> and the same \<open>to_remove\<close>, end with the same status and leave the
  same key set. Neither the objects that the maps point to, nor the rest of the two
  listeners, nor the order of the lists has a say.
\<close>

theorem C10_outcome_depends_on_key_set_only:
  assumes "set (keys (tracked f s1)) = set (keys (tracked f s2))" and "set ids1 = set ids2"
  shows "to_add_of (new_ids_of ids1) (current_ids_of f s1)
           = to_add_of (new_ids_of ids2) (current_ids_of f s2)
    \<and> to_remove_of (new_ids_of ids1) (current_ids_of f s1)
           = to_remove_of (new_ids_of ids2) (current_ids_of f s2)
    \<and> fst (onTrackedFeature init f ids1 s1) = fst (onTrackedFeature init f ids2 s2)
    \<and> set (keys (tracked f (snd (onTrackedFeature init f ids1 s1))))
           = set (keys (tracked f (snd (onTrackedFeature init f ids2 s2))))"
proof -
  have n: "new_ids_of ids1 = new_ids_of ids2"
    using assms(2) by (rule new_ids_of_cong)
  have c: "current_ids_of f s1 = current_ids_of f s2"
    using assms(1) by (rule current_ids_of_cong)
  have st: "fst (onTrackedFeature init f ids1 s1) = fst (onTrackedFeature init f ids2 s2)"
    by (simp add: onTrackedFeature_def Let_def add_all_status n c)
  have ks: "set (keys (tracked f (snd (onTrackedFeature init f ids1 s1))))
           = set (keys (tracked f (snd (onTrackedFeature init f ids2 s2))))"
    by (simp add: onTrackedFeature_keys n c assms)
  show ?thesis
    using st ks by (simp add: n c)
qed

theorem C10_witness:
  "fst (onTrackedFeature init_faulty face [''C'', ''B'', ''D''] tracking_A)
     = fst (onTrackedFeature init_faulty face [''D'', ''C'', ''B'', ''C''] tracking_A_again)
   \<and> set (keys (faces (snd (onTrackedFeature init_faulty face [''C'', ''B'', ''D''] tracking_A))))
     = set (keys (faces (snd (onTrackedFeature init_faulty face [''D'', ''C'', ''B'', ''C'']
         tracking_A_again))))"
proof -
  have k: "set (keys (tracked face tracking_A)) = set (keys (tracked face tracking_A_again))"
    by (simp add: keys_def tracked_def tracking_A_def tracking_A_again_def)
  have i: "set [''C'', ''B'', ''D''] = set [''D'', ''C'', ''B'', ''C'']"
    by auto
  show ?thesis
    using C10_outcome_depends_on_key_set_only [OF k i, of init_faulty] by (simp add: tracked_def)
qed

end
